theory Spec2Isabelle
  imports Complex_Main
begin

section \<open>Numbers and configuration\<close>

text \<open>
  The program is \<^verbatim>\<open>src/script.js\<close>. A JavaScript Number is modelled as a \<^typ>\<open>real\<close>:
  finite and exact, so neither \<^verbatim>\<open>NaN\<close>, the infinities nor the rounding of IEEE doubles
  appear. An integer that the program obtains from \<^verbatim>\<open>parseInt\<close> is an
  \<^typ>\<open>int option\<close>, with \<^term>\<open>None\<close> for \<^verbatim>\<open>NaN\<close>. A string is a \<^typ>\<open>string\<close>, one
  \<^typ>\<open>char\<close> per character (code points up to 255).
\<close>

definition MAX_EXTRA_POINTS :: real where
  "MAX_EXTRA_POINTS = 10"

definition MAX_BLUR_PX :: real where
  "MAX_BLUR_PX = 4"

text \<open>\<^verbatim>\<open>Math.round\<close>: the nearest integer, a tie going towards plus infinity.\<close>

definition Math_round :: "real \<Rightarrow> int" where
  "Math_round v = \<lfloor>v + 1 / 2\<rfloor>"

section \<open>Visual mapping logic\<close>

definition scoreToDistortion :: "real \<Rightarrow> real" where
  "scoreToDistortion sc = (let clamped = max 0 (min 1 sc) in 1 - clamped)"

definition lerp :: "real \<Rightarrow> real \<Rightarrow> real \<Rightarrow> real" where
  "lerp a c t = a + (c - a) * t"

record Color =
  r :: int
  g :: int
  b :: int

definition scoreToColor :: "real \<Rightarrow> Color" where
  "scoreToColor sc =
     (let s = max 0 (min 1 sc);
          r = lerp 220 20 s;
          g = lerp 40 210 s;
          b = lerp 40 120 s
      in \<lparr> r = Math_round r, g = Math_round g, b = Math_round b \<rparr>)"

text \<open>
  The clamp of the specification (\<open>clamp(score, 0, 1)\<close>), written from its words, to be
  compared with the \<^verbatim>\<open>Math.max(0, Math.min(1, score))\<close> of the source.
\<close>

definition clamp_spec :: "real \<Rightarrow> real \<Rightarrow> real \<Rightarrow> real" where
  "clamp_spec v lo hi = (if v < lo then lo else if hi < v then hi else v)"

section \<open>Score lookup\<close>

text \<open>
  \<^verbatim>\<open>dataByCountry\<close> maps a country to its array of \<^verbatim>\<open>{year, score}\<close> objects. It is a
  global of the source and the first argument here. The requested year is a Number that
  may be \<^verbatim>\<open>NaN\<close> (\<^term>\<open>None\<close>): then \<^verbatim>\<open>d.year === year\<close> and \<^verbatim>\<open>d.year <= year\<close> are
  both false.
\<close>

record DataPoint =
  year :: int
  score :: real

fun bestEntry :: "int option \<Rightarrow> DataPoint \<Rightarrow> DataPoint list \<Rightarrow> DataPoint" where
  "bestEntry yr best [] = best"
| "bestEntry yr best (d # ds) =
     (if (case yr of None \<Rightarrow> False | Some v \<Rightarrow> year d \<le> v) \<and> year d \<ge> year best
      then bestEntry yr d ds
      else bestEntry yr best ds)"

definition getCurrentScore ::
  "(string \<rightharpoonup> DataPoint list) \<Rightarrow> string \<Rightarrow> int option \<Rightarrow> real option" where
  "getCurrentScore dataByCountry country yr =
     (case dataByCountry country of
        None \<Rightarrow> None
      | Some arr \<Rightarrow>
          (case arr of
             [] \<Rightarrow> None
           | first # _ \<Rightarrow>
               (case find (\<lambda>d. Some (year d) = yr) arr of
                  Some exact \<Rightarrow> Some (score exact)
                | None \<Rightarrow> Some (score (bestEntry yr first arr)))))"

text \<open>
  \<^verbatim>\<open>parseCSV\<close> fills \<^verbatim>\<open>dataByCountry\<close> and then sorts every array by year
  (\<^verbatim>\<open>arr.sort((a, b) => a.year - b.year)\<close>, a stable sort). The rows are taken as already
  parsed: the country, the year and the score of each kept line, in file order.
\<close>

fun pushRows :: "(string \<times> int \<times> real) list \<Rightarrow> (string \<rightharpoonup> DataPoint list)
    \<Rightarrow> (string \<rightharpoonup> DataPoint list)" where
  "pushRows [] m = m"
| "pushRows ((country, yr, sc) # rows) m =
     pushRows rows
       (m(country \<mapsto> (case m country of None \<Rightarrow> [] | Some arr \<Rightarrow> arr)
                        @ [\<lparr> year = yr, score = sc \<rparr>]))"

definition parseRows :: "(string \<times> int \<times> real) list \<Rightarrow> (string \<rightharpoonup> DataPoint list)" where
  "parseRows rows = map_option (sort_key year) \<circ> pushRows rows Map.empty"

section \<open>Typographic distortion\<close>

text \<open>
  The path commands of the font library: \<^verbatim>\<open>M\<close> and \<^verbatim>\<open>L\<close> carry their target \<open>x y\<close>,
  \<^verbatim>\<open>Q\<close> one control point and the target (\<open>x1 y1 x y\<close>), \<^verbatim>\<open>C\<close> two control points and
  the target (\<open>x1 y1 x2 y2 x y\<close>), \<^verbatim>\<open>Z\<close> nothing.
\<close>

datatype PathCommand =
    MoveTo real real
  | LineTo real real
  | QuadraticTo real real real real
  | CubicTo real real real real real real
  | ClosePath

text \<open>
  \<^verbatim>\<open>Math.random\<close> is the engine's global generator; \<^verbatim>\<open>distortPath(path, distortionLevel)\<close>
  does not receive it. Its hidden state is modelled as the sequence of the values it is
  going to return together with the number of values already drawn, and threaded through
  every function that calls it.
\<close>

type_synonym rng = "(nat \<Rightarrow> real) \<times> nat"

definition Math_random :: "rng \<Rightarrow> real \<times> rng" where
  "Math_random gen = (case gen of (f, n) \<Rightarrow> (f n, (f, Suc n)))"

text \<open>
  The inner \<^verbatim>\<open>for (let i = 1; i <= extraPoints; i++)\<close> loop, which the source has twice:
  with \<^verbatim>\<open>jitter = distortionLevel * 6\<close> under \<^verbatim>\<open>L\<close> and with
  \<^verbatim>\<open>jitter = distortionLevel * 10\<close> under \<^verbatim>\<open>Q\<close> and \<^verbatim>\<open>C\<close>; \<open>k\<close> is that factor.
\<close>

function subdivide ::
  "real \<Rightarrow> real \<Rightarrow> real \<Rightarrow> real \<Rightarrow> real \<Rightarrow> real \<Rightarrow> int \<Rightarrow> int \<Rightarrow> rng
     \<Rightarrow> PathCommand list \<times> rng" where
  "subdivide k distortionLevel prevX prevY targetX targetY extraPoints i gen =
     (if i \<le> extraPoints then
        (let t = real_of_int i / real_of_int (extraPoints + 1);
             baseX = prevX + (targetX - prevX) * t;
             baseY = prevY + (targetY - prevY) * t;
             jitter = distortionLevel * k;
             (r1, gen1) = Math_random gen;
             jx = (r1 - 1 / 2) * jitter;
             (r2, gen2) = Math_random gen1;
             jy = (r2 - 1 / 2) * jitter;
             (rest, gen') =
               subdivide k distortionLevel prevX prevY targetX targetY extraPoints (i + 1) gen2
         in (LineTo (baseX + jx) (baseY + jy) # rest, gen'))
      else ([], gen))"
  by pat_completeness auto
termination
  by (relation "measure (\<lambda>(k, l, px, py, tx, ty, e, i, gen). nat (e + 1 - i))") auto

declare subdivide.simps [simp del]

text \<open>The \<^verbatim>\<open>for (const cmd of path.commands)\<close> loop, with its cursor \<open>(prevX, prevY)\<close>.\<close>

fun distortCommands ::
  "real \<Rightarrow> int \<Rightarrow> real \<Rightarrow> real \<Rightarrow> PathCommand list \<Rightarrow> rng \<Rightarrow> PathCommand list \<times> rng" where
  "distortCommands distortionLevel extraPoints prevX prevY [] gen = ([], gen)"
| "distortCommands distortionLevel extraPoints prevX prevY (MoveTo x y # cmds) gen =
     (let (rest, gen') = distortCommands distortionLevel extraPoints x y cmds gen
      in (MoveTo x y # rest, gen'))"
| "distortCommands distortionLevel extraPoints prevX prevY (LineTo x y # cmds) gen =
     (let (points, gen1) = subdivide 6 distortionLevel prevX prevY x y extraPoints 1 gen;
          (rest, gen') = distortCommands distortionLevel extraPoints x y cmds gen1
      in (points @ LineTo x y # rest, gen'))"
| "distortCommands distortionLevel extraPoints prevX prevY (QuadraticTo x1 y1 x y # cmds) gen =
     (let (points, gen1) = subdivide 10 distortionLevel prevX prevY x y extraPoints 1 gen;
          (rest, gen') = distortCommands distortionLevel extraPoints x y cmds gen1
      in (points @ QuadraticTo x1 y1 x y # rest, gen'))"
| "distortCommands distortionLevel extraPoints prevX prevY (CubicTo x1 y1 x2 y2 x y # cmds) gen =
     (let (points, gen1) = subdivide 10 distortionLevel prevX prevY x y extraPoints 1 gen;
          (rest, gen') = distortCommands distortionLevel extraPoints x y cmds gen1
      in (points @ CubicTo x1 y1 x2 y2 x y # rest, gen'))"
| "distortCommands distortionLevel extraPoints prevX prevY (ClosePath # cmds) gen =
     (let (rest, gen') = distortCommands distortionLevel extraPoints prevX prevY cmds gen
      in (ClosePath # rest, gen'))"

text \<open>
  \<^verbatim>\<open>distortPath\<close> replaces \<^verbatim>\<open>path.commands\<close> in place, or returns before touching it; the
  model returns the commands the path holds afterwards, and the generator's state.
\<close>

definition distortPath :: "PathCommand list \<Rightarrow> real \<Rightarrow> rng \<Rightarrow> PathCommand list \<times> rng" where
  "distortPath commands distortionLevel gen =
     (if distortionLevel \<le> 0 then (commands, gen)
      else
        (let extraPoints = Math_round (distortionLevel * MAX_EXTRA_POINTS)
         in if extraPoints \<le> 0 then (commands, gen)
            else distortCommands distortionLevel extraPoints 0 0 commands gen))"

section \<open>Text layout\<close>

text \<open>
  The font object of the font library: \<^verbatim>\<open>charToGlyph\<close> gives every character a glyph
  (the library falls back to its \<^verbatim>\<open>.notdef\<close> glyph), a glyph has its \<^verbatim>\<open>advanceWidth\<close> and
  \<^verbatim>\<open>getPath(x, y, fontSize)\<close>, of which the commands are kept.
\<close>

record Glyph =
  advanceWidth :: real
  getPath :: "real \<Rightarrow> real \<Rightarrow> real \<Rightarrow> PathCommand list"

record Font =
  charToGlyph :: "char \<Rightarrow> Glyph"
  unitsPerEm :: real

definition measureLineWidth :: "string \<Rightarrow> Font \<Rightarrow> real \<Rightarrow> real \<Rightarrow> real" where
  "measureLineWidth str font scale letterSpacing =
     fold (\<lambda>ch width.
             (let glyph = charToGlyph font ch
              in width + (advanceWidth glyph * scale + letterSpacing)))
       str 0"

text \<open>
  The characters that \<^verbatim>\<open>\s\<close> matches and \<^verbatim>\<open>trim\<close> strips, among the code points up to
  255: tab, line feed, vertical tab, form feed, carriage return, space and no-break space.
\<close>

definition isWhiteSpace :: "char \<Rightarrow> bool" where
  "isWhiteSpace ch =
     (ch = CHR 0x09 \<or> ch = CHR 0x0A \<or> ch = CHR 0x0B \<or> ch = CHR 0x0C \<or> ch = CHR 0x0D
      \<or> ch = CHR '' '' \<or> ch = CHR 0xA0)"

text \<open>
  \<^verbatim>\<open>text.split(/\s+/)\<close>: the pieces between the maximal runs of whitespace; a string
  without whitespace (the empty one too) is its only piece, and whitespace at either end
  leaves an empty piece there.
\<close>

function split_whitespace :: "string \<Rightarrow> string list" where
  "split_whitespace s =
     (case dropWhile (\<lambda>ch. \<not> isWhiteSpace ch) s of
        [] \<Rightarrow> [s]
      | _ # rest \<Rightarrow>
          takeWhile (\<lambda>ch. \<not> isWhiteSpace ch) s # split_whitespace (dropWhile isWhiteSpace rest))"
  by pat_completeness auto
termination
proof (relation "measure length")
  fix s :: string and sp rest
  assume "dropWhile (\<lambda>ch. \<not> isWhiteSpace ch) s = sp # rest"
  then have "length rest < length s"
    using length_dropWhile_le [of "\<lambda>ch. \<not> isWhiteSpace ch" s] by simp
  moreover have "length (dropWhile isWhiteSpace rest) \<le> length rest"
    by (rule length_dropWhile_le)
  ultimately show "(dropWhile isWhiteSpace rest, s) \<in> measure length"
    by simp
qed simp

declare split_whitespace.simps [simp del]

definition trim :: "string \<Rightarrow> string" where
  "trim s = rev (dropWhile isWhiteSpace (rev (dropWhile isWhiteSpace s)))"

text \<open>
  The body of the \<^verbatim>\<open>for (const word of words)\<close> loop on the pair
  \<open>(lines, currentLine)\<close>; a string is truthy when it is not empty.
\<close>

definition layoutStep ::
  "real \<Rightarrow> Font \<Rightarrow> real \<Rightarrow> real \<Rightarrow> string list \<times> string \<Rightarrow> string \<Rightarrow> string list \<times> string" where
  "layoutStep maxWidth font scale letterSpacing state word =
     (case state of (lines, currentLine) \<Rightarrow>
        (let testLine = (if currentLine \<noteq> [] then currentLine @ '' '' @ word else word);
             testWidth = measureLineWidth testLine font scale letterSpacing
         in if testWidth > maxWidth \<and> currentLine \<noteq> []
            then (lines @ [currentLine], word)
            else (lines, testLine)))"

fun layoutWords ::
  "real \<Rightarrow> Font \<Rightarrow> real \<Rightarrow> real \<Rightarrow> string list \<Rightarrow> string list \<times> string \<Rightarrow> string list \<times> string" where
  "layoutWords maxWidth font scale letterSpacing [] state = state"
| "layoutWords maxWidth font scale letterSpacing (word # words) state =
     layoutWords maxWidth font scale letterSpacing words
       (layoutStep maxWidth font scale letterSpacing state word)"

definition layoutTextIntoLines ::
  "string \<Rightarrow> real \<Rightarrow> Font \<Rightarrow> real \<Rightarrow> real \<Rightarrow> string list" where
  "layoutTextIntoLines text maxWidth font scale letterSpacing =
     (let words = split_whitespace text;
          (lines, currentLine) = layoutWords maxWidth font scale letterSpacing words ([], [])
      in if currentLine \<noteq> [] then lines @ [currentLine] else lines)"

section \<open>Drawing\<close>

text \<open>
  What \<^verbatim>\<open>drawOutput\<close> reads: the DOM inputs (a numeric input already through
  \<^verbatim>\<open>parseInt(_, 10)\<close>), the canvas size and the globals of the script. \<^verbatim>\<open>currentCountry\<close>
  and \<^verbatim>\<open>font\<close> are \<^verbatim>\<open>null\<close> or a value; \<^verbatim>\<open>currentYear\<close> is \<^term>\<open>None\<close> when it is
  \<^verbatim>\<open>null\<close> or \<^verbatim>\<open>NaN\<close>.
\<close>

record UIState =
  textInput_value :: string
  countrySelect_value :: string
  yearSlider_value :: "int option"
  fontSizeInput_value :: "int option"
  letterSpacingInput_value :: "int option"
  lineHeightInput_value :: "int option"
  canvas_width :: real
  canvas_height :: real
  font :: "Font option"
  dataByCountry :: "string \<rightharpoonup> DataPoint list"
  currentCountry :: "string option"
  currentYear :: "int option"
  currentScore :: "real option"

text \<open>
  What \<^verbatim>\<open>drawOutput\<close> writes, in order: the three panel texts, the wrapper's background
  (\<^verbatim>\<open>canvasWrapper.style.background\<close>), the canvas filter (\<^verbatim>\<open>blur(<blurPx>px)\<close>), and the
  calls on the 2D context; \<^verbatim>\<open>glyphPath.draw(ctx)\<close> fills one outline.
\<close>

datatype Instruction =
    SetPanelCountry string
  | SetPanelYear "int option"
  | SetPanelScore real
  | SetBackground Color
  | SetBlur real
  | ClearRect real real real real
  | SetFillStyle string
  | Save
  | FillOutline "PathCommand list"
  | Restore

text \<open>The loop over the characters of one line, at baseline \<open>y\<close>, from \<open>x\<close> on.\<close>

fun drawChars ::
  "Font \<Rightarrow> real \<Rightarrow> real \<Rightarrow> real \<Rightarrow> real \<Rightarrow> real \<Rightarrow> real \<Rightarrow> string \<Rightarrow> rng
     \<Rightarrow> Instruction list \<times> rng" where
  "drawChars fnt distortionLevel scale letterSpacing fontSize y x [] gen = ([], gen)"
| "drawChars fnt distortionLevel scale letterSpacing fontSize y x (ch # chs) gen =
     (let glyph = charToGlyph fnt ch;
          glyphPath = getPath glyph x y fontSize;
          (distorted, gen1) = distortPath glyphPath distortionLevel gen;
          (rest, gen') =
            drawChars fnt distortionLevel scale letterSpacing fontSize y
              (x + (advanceWidth glyph * scale + letterSpacing)) chs gen1
      in (FillOutline distorted # rest, gen'))"

text \<open>The loop over the lines.\<close>

fun drawLines ::
  "Font \<Rightarrow> real \<Rightarrow> real \<Rightarrow> real \<Rightarrow> real \<Rightarrow> real \<Rightarrow> real \<Rightarrow> real \<Rightarrow> string list \<Rightarrow> rng
     \<Rightarrow> Instruction list \<times> rng" where
  "drawLines fnt distortionLevel scale letterSpacing fontSize lineHeightFactor width y [] gen =
     ([], gen)"
| "drawLines fnt distortionLevel scale letterSpacing fontSize lineHeightFactor width y
       (line # lines) gen =
     (let lineWidth = measureLineWidth line fnt scale letterSpacing;
          x = (width - lineWidth) / 2;
          (glyphs, gen1) =
            drawChars fnt distortionLevel scale letterSpacing fontSize y x line gen;
          (rest, gen') =
            drawLines fnt distortionLevel scale letterSpacing fontSize lineHeightFactor width
              (y + fontSize * lineHeightFactor) lines gen1
      in (glyphs @ rest, gen'))"

text \<open>
  The first three constants of \<^verbatim>\<open>drawOutput\<close>: \<^verbatim>\<open>textInput.value.trim() || "font"\<close>,
  \<^verbatim>\<open>currentCountry || countrySelect.value\<close> and
  \<^verbatim>\<open>currentYear || parseInt(yearSlider.value, 10)\<close>. An empty string, \<^verbatim>\<open>null\<close>, \<open>0\<close> and
  \<^verbatim>\<open>NaN\<close> are falsy.
\<close>

definition inputText :: "UIState \<Rightarrow> string" where
  "inputText st =
     (if trim (textInput_value st) \<noteq> [] then trim (textInput_value st) else ''font'')"

definition selectedCountry :: "UIState \<Rightarrow> string" where
  "selectedCountry st =
     (case currentCountry st of
        Some c \<Rightarrow> if c \<noteq> [] then c else countrySelect_value st
      | None \<Rightarrow> countrySelect_value st)"

definition selectedYear :: "UIState \<Rightarrow> int option" where
  "selectedYear st =
     (case currentYear st of
        Some v \<Rightarrow> if v \<noteq> 0 then Some v else yearSlider_value st
      | None \<Rightarrow> yearSlider_value st)"

definition drawOutput :: "UIState \<Rightarrow> rng \<Rightarrow> Instruction list \<times> UIState \<times> rng" where
  "drawOutput st gen =
     (let text = inputText st;
          country = selectedCountry st;
          yr = selectedYear st
      in if country = [] then ([], st, gen)
         else
           (let rawScore = getCurrentScore (dataByCountry st) country yr;
                sc = (case rawScore of Some v \<Rightarrow> v | None \<Rightarrow> 1 / 2);
                clampedScore = max 0 (min 1 sc);
                distortionLevel = scoreToDistortion clampedScore;
                color = scoreToColor clampedScore;
                st1 = st\<lparr> currentScore := Some clampedScore \<rparr>;
                blurPx = distortionLevel * MAX_BLUR_PX;
                panel = [SetPanelCountry country, SetPanelYear yr, SetPanelScore clampedScore,
                         SetBackground color, SetBlur blurPx]
            in case font st of
                 None \<Rightarrow> (panel, st1, gen)
               | Some fnt \<Rightarrow>
                   (let fontSize = (case fontSizeInput_value st of
                                      Some n \<Rightarrow> if n \<noteq> 0 then real_of_int n else 120
                                    | None \<Rightarrow> 120);
                        letterSpacing = (case letterSpacingInput_value st of
                                           Some n \<Rightarrow> real_of_int n
                                         | None \<Rightarrow> 0);
                        lineHeightFactor = (case lineHeightInput_value st of
                                              Some n \<Rightarrow> if n \<noteq> 0 then real_of_int n / 100
                                                         else 12 / 10
                                            | None \<Rightarrow> 12 / 10);
                        em = (if unitsPerEm fnt \<noteq> 0 then unitsPerEm fnt else 1000);
                        scale = fontSize / em;
                        maxLineWidth = canvas_width st * (8 / 10);
                        lines = layoutTextIntoLines text maxLineWidth fnt scale letterSpacing;
                        totalHeight = real (length lines) * fontSize * lineHeightFactor;
                        y = (canvas_height st - totalHeight) / 2 + fontSize;
                        (fills, gen') =
                          drawLines fnt distortionLevel scale letterSpacing fontSize
                            lineHeightFactor (canvas_width st) y lines gen
                    in (panel
                        @ [ClearRect 0 0 (canvas_width st) (canvas_height st),
                           SetFillStyle ''#000000'', Save]
                        @ fills @ [Restore], st1, gen'))))"

text \<open>The kinds of instruction that the properties of the rendering count.\<close>

fun isSetBackground :: "Instruction \<Rightarrow> bool" where
  "isSetBackground (SetBackground c) = True"
| "isSetBackground i = False"

fun isSetBlur :: "Instruction \<Rightarrow> bool" where
  "isSetBlur (SetBlur v) = True"
| "isSetBlur i = False"

fun isFillOutline :: "Instruction \<Rightarrow> bool" where
  "isFillOutline (FillOutline p) = True"
| "isFillOutline i = False"

text \<open>
  The state in which the script starts (its globals as declared, \<^verbatim>\<open>null\<close> and an empty
  map), with an empty text box, a dropdown without options, unparsable numeric inputs and
  a canvas of the default size.
\<close>

definition initialState :: UIState where
  "initialState =
     \<lparr> textInput_value = [], countrySelect_value = [], yearSlider_value = None,
       fontSizeInput_value = None, letterSpacingInput_value = None,
       lineHeightInput_value = None, canvas_width = 300, canvas_height = 150,
       font = None, dataByCountry = Map.empty, currentCountry = None, currentYear = None,
       currentScore = None \<rparr>"

text \<open>The constant \<^verbatim>\<open>clampedScore\<close> of \<^verbatim>\<open>drawOutput\<close>, as a function of the state.\<close>

definition clampedScoreOf :: "UIState \<Rightarrow> real" where
  "clampedScoreOf st =
     max 0 (min 1 (case getCurrentScore (dataByCountry st) (selectedCountry st) (selectedYear st)
                   of Some v \<Rightarrow> v | None \<Rightarrow> 1 / 2))"

section \<open>Words\<close>

text \<open>
  A word is a non-empty string without whitespace; \<open>joinWords\<close> puts one space between
  the words of a list.
\<close>

definition isWord :: "string \<Rightarrow> bool" where
  "isWord w = (w \<noteq> [] \<and> list_all (\<lambda>ch. \<not> isWhiteSpace ch) w)"

fun joinWords :: "string list \<Rightarrow> string" where
  "joinWords [] = []"
| "joinWords [w] = w"
| "joinWords (w # ws) = w @ '' '' @ joinWords ws"

text \<open>
  Greedy wrapping, from the words of section 4.3 of the specification. The words are cut
  into consecutive groups, one per line. A word joins the current line when the line with a
  space and the word is not wider than \<open>maxWidth\<close>: so every beginning of a group, from
  two words on, fits. A line is committed when the line with a space and the next word is
  wider than \<open>maxWidth\<close>: so every group with the first word of the next one does not fit.
\<close>

definition prefixesFit :: "real \<Rightarrow> Font \<Rightarrow> real \<Rightarrow> real \<Rightarrow> string list \<Rightarrow> bool" where
  "prefixesFit maxWidth fnt scale letterSpacing grp =
     list_all (\<lambda>k. measureLineWidth (joinWords (take k grp)) fnt scale letterSpacing \<le> maxWidth)
       [2..<Suc (length grp)]"

definition breakForced ::
  "real \<Rightarrow> Font \<Rightarrow> real \<Rightarrow> real \<Rightarrow> string list \<Rightarrow> string list \<Rightarrow> bool" where
  "breakForced maxWidth fnt scale letterSpacing grp next =
     (maxWidth < measureLineWidth (joinWords grp @ '' '' @ hd next) fnt scale letterSpacing)"

definition greedyGrouping ::
  "real \<Rightarrow> Font \<Rightarrow> real \<Rightarrow> real \<Rightarrow> string list list \<Rightarrow> bool" where
  "greedyGrouping maxWidth fnt scale letterSpacing groups =
     (list_all (\<lambda>grp. grp \<noteq> [] \<and> prefixesFit maxWidth fnt scale letterSpacing grp) groups
      \<and> successively (breakForced maxWidth fnt scale letterSpacing) groups)"

text \<open>A font for examples: every character has the advance width \<open>a\<close> and an empty outline.\<close>

definition fixedWidthFont :: "real \<Rightarrow> Font" where
  "fixedWidthFont a =
     \<lparr> charToGlyph = (\<lambda>ch. \<lparr> advanceWidth = a, getPath = (\<lambda>x y fontSize. []) \<rparr>),
       unitsPerEm = 1000 \<rparr>"

section \<open>The distortion as the specification describes it\<close>

text \<open>
  The commands that \<^verbatim>\<open>distortPath\<close> subdivides: \<^verbatim>\<open>L\<close>, \<^verbatim>\<open>Q\<close> and \<^verbatim>\<open>C\<close>.
\<close>

fun isSegment :: "PathCommand \<Rightarrow> bool" where
  "isSegment (LineTo x y) = True"
| "isSegment (QuadraticTo x1 y1 x y) = True"
| "isSegment (CubicTo x1 y1 x2 y2 x y) = True"
| "isSegment c = False"

fun isLineTo :: "PathCommand \<Rightarrow> bool" where
  "isLineTo (LineTo x y) = True"
| "isLineTo c = False"

definition segmentCount :: "PathCommand list \<Rightarrow> nat" where
  "segmentCount commands = length (filter isSegment commands)"

text \<open>
  The output that section 4.2 of the specification describes, written from its words: an
  original command is emitted as it is; before a \<open>LineTo\<close>, for \<open>i = 1..extraPoints\<close>, comes
  a point within \<open>level * 3\<close> on each axis of the interpolation between cursor and target at
  \<open>t = i / (extraPoints + 1)\<close>; before a \<open>QuadraticTo\<close> or \<open>CubicTo\<close> the same within
  \<open>level * 5\<close>.
\<close>

datatype Expected =
    Unchanged PathCommand
  | Jittered real real real

definition expectedInterior ::
  "real \<Rightarrow> int \<Rightarrow> real \<Rightarrow> real \<Rightarrow> real \<Rightarrow> real \<Rightarrow> Expected list" where
  "expectedInterior bound extraPoints prevX prevY targetX targetY =
     map (\<lambda>i. Jittered
                (prevX + (targetX - prevX) * (real_of_int i / real_of_int (extraPoints + 1)))
                (prevY + (targetY - prevY) * (real_of_int i / real_of_int (extraPoints + 1)))
                bound)
       [1..extraPoints]"

fun expectedPath :: "real \<Rightarrow> int \<Rightarrow> real \<Rightarrow> real \<Rightarrow> PathCommand list \<Rightarrow> Expected list" where
  "expectedPath level extraPoints prevX prevY [] = []"
| "expectedPath level extraPoints prevX prevY (MoveTo x y # cmds) =
     Unchanged (MoveTo x y) # expectedPath level extraPoints x y cmds"
| "expectedPath level extraPoints prevX prevY (LineTo x y # cmds) =
     expectedInterior (level * 3) extraPoints prevX prevY x y
     @ Unchanged (LineTo x y) # expectedPath level extraPoints x y cmds"
| "expectedPath level extraPoints prevX prevY (QuadraticTo x1 y1 x y # cmds) =
     expectedInterior (level * 5) extraPoints prevX prevY x y
     @ Unchanged (QuadraticTo x1 y1 x y) # expectedPath level extraPoints x y cmds"
| "expectedPath level extraPoints prevX prevY (CubicTo x1 y1 x2 y2 x y # cmds) =
     expectedInterior (level * 5) extraPoints prevX prevY x y
     @ Unchanged (CubicTo x1 y1 x2 y2 x y) # expectedPath level extraPoints x y cmds"
| "expectedPath level extraPoints prevX prevY (ClosePath # cmds) =
     Unchanged ClosePath # expectedPath level extraPoints prevX prevY cmds"

fun conforms :: "PathCommand \<Rightarrow> Expected \<Rightarrow> bool" where
  "conforms c (Unchanged c') = (c = c')"
| "conforms (LineTo x y) (Jittered baseX baseY bound) =
     (\<bar>x - baseX\<bar> \<le> bound \<and> \<bar>y - baseY\<bar> \<le> bound)"
| "conforms c (Jittered baseX baseY bound) = False"

section \<open>Properties of the score mapping\<close>

lemma Math_round_mono: "v \<le> w \<Longrightarrow> Math_round v \<le> Math_round w"
  unfolding Math_round_def by (rule floor_mono) simp

lemma Math_round_nearest: "\<bar>real_of_int (Math_round v) - v\<bar> \<le> 1 / 2"
  unfolding Math_round_def by linarith

text \<open>
  Claim C5. For every real score, \<open>scoreToDistortion score\<close> is one minus the score clamped
  to \<open>[0, 1]\<close>; it is a total function, non-increasing in the score, and its values at
  \<open>0\<close>, \<open>1\<close>, \<open>-0.5\<close> and \<open>1.5\<close> are \<open>1\<close>, \<open>0\<close>, \<open>1\<close> and \<open>0\<close>. (The source has no
  statement that throws; the model is a total function of a real.)
\<close>

theorem scoreToDistortion_clamp:
  "scoreToDistortion sc = 1 - clamp_spec sc 0 1
   \<and> (\<forall>s1 s2. s1 \<le> s2 \<longrightarrow> scoreToDistortion s2 \<le> scoreToDistortion s1)
   \<and> scoreToDistortion 0 = 1 \<and> scoreToDistortion 1 = 0
   \<and> scoreToDistortion (- 1 / 2) = 1 \<and> scoreToDistortion (3 / 2) = 0"
  by (auto simp: scoreToDistortion_def clamp_spec_def)

theorem scoreToDistortion_clamp_witness:
  "(1 / 4 :: real) \<le> 3 / 4 \<and> scoreToDistortion (3 / 4) \<le> scoreToDistortion (1 / 4)
   \<and> scoreToDistortion (3 / 4) = 1 - clamp_spec (3 / 4) 0 1
   \<and> scoreToDistortion (3 / 4) = 1 / 4"
proof -
  have mono: "scoreToDistortion (3 / 4) \<le> scoreToDistortion (1 / 4)"
    using scoreToDistortion_clamp [of 0] by simp
  have eq: "scoreToDistortion (3 / 4) = 1 - clamp_spec (3 / 4) 0 1"
    using scoreToDistortion_clamp [of "3 / 4"] by simp
  have "clamp_spec (3 / 4) 0 1 = 3 / 4"
    by (simp add: clamp_spec_def)
  with mono eq show ?thesis by simp
qed

lemma scoreToColor_channels:
  "r (scoreToColor sc) = Math_round (220 - 200 * max 0 (min 1 sc))"
  "g (scoreToColor sc) = Math_round (40 + 170 * max 0 (min 1 sc))"
  "b (scoreToColor sc) = Math_round (40 + 80 * max 0 (min 1 sc))"
  by (simp_all add: scoreToColor_def lerp_def Let_def)

text \<open>
  Claim C6. \<open>scoreToColor\<close> clamps its input to \<open>[0, 1]\<close> and gives every channel the integer
  nearest to the linear interpolation between the anchor \<open>(220, 40, 40)\<close> at \<open>0\<close> and the
  anchor \<open>(20, 210, 120)\<close> at \<open>1\<close>: it returns the anchors at \<open>0\<close> and \<open>1\<close>, and for
  \<open>0 \<le> s1 < s2 \<le> 1\<close> the red channel does not increase while the green and blue channels
  do not decrease.
\<close>

theorem scoreToColor_interpolation:
  "scoreToColor 0 = \<lparr> r = 220, g = 40, b = 40 \<rparr>
   \<and> scoreToColor 1 = \<lparr> r = 20, g = 210, b = 120 \<rparr>
   \<and> scoreToColor sc = scoreToColor (clamp_spec sc 0 1)
   \<and> (0 \<le> sc \<and> sc \<le> 1 \<longrightarrow>
        \<bar>real_of_int (r (scoreToColor sc)) - (220 + (20 - 220) * sc)\<bar> \<le> 1 / 2
      \<and> \<bar>real_of_int (g (scoreToColor sc)) - (40 + (210 - 40) * sc)\<bar> \<le> 1 / 2
      \<and> \<bar>real_of_int (b (scoreToColor sc)) - (40 + (120 - 40) * sc)\<bar> \<le> 1 / 2)
   \<and> (\<forall>s1 s2. 0 \<le> s1 \<and> s1 < s2 \<and> s2 \<le> 1 \<longrightarrow>
        r (scoreToColor s1) \<ge> r (scoreToColor s2)
      \<and> g (scoreToColor s1) \<le> g (scoreToColor s2)
      \<and> b (scoreToColor s1) \<le> b (scoreToColor s2))"
proof (intro conjI allI impI)
  show "scoreToColor 0 = \<lparr> r = 220, g = 40, b = 40 \<rparr>"
    by (simp add: scoreToColor_def lerp_def Math_round_def)
  show "scoreToColor 1 = \<lparr> r = 20, g = 210, b = 120 \<rparr>"
    by (simp add: scoreToColor_def lerp_def Math_round_def)
  have "max 0 (min 1 (clamp_spec sc 0 1)) = max 0 (min 1 sc)"
    by (simp add: clamp_spec_def)
  then show "scoreToColor sc = scoreToColor (clamp_spec sc 0 1)"
    by (simp add: scoreToColor_def)
next
  assume "0 \<le> sc \<and> sc \<le> 1"
  then have c: "max 0 (min 1 sc) = sc" by simp
  show "\<bar>real_of_int (r (scoreToColor sc)) - (220 + (20 - 220) * sc)\<bar> \<le> 1 / 2"
    using Math_round_nearest [of "220 - 200 * sc"] by (simp add: scoreToColor_channels c)
  show "\<bar>real_of_int (g (scoreToColor sc)) - (40 + (210 - 40) * sc)\<bar> \<le> 1 / 2"
    using Math_round_nearest [of "40 + 170 * sc"] by (simp add: scoreToColor_channels c)
  show "\<bar>real_of_int (b (scoreToColor sc)) - (40 + (120 - 40) * sc)\<bar> \<le> 1 / 2"
    using Math_round_nearest [of "40 + 80 * sc"] by (simp add: scoreToColor_channels c)
next
  fix s1 s2 :: real
  assume "0 \<le> s1 \<and> s1 < s2 \<and> s2 \<le> 1"
  then have c: "max 0 (min 1 s1) = s1" "max 0 (min 1 s2) = s2" and le: "s1 \<le> s2"
    by simp_all
  show "r (scoreToColor s2) \<le> r (scoreToColor s1)"
    unfolding scoreToColor_channels c using le by (intro Math_round_mono) simp
  show "g (scoreToColor s1) \<le> g (scoreToColor s2)"
    unfolding scoreToColor_channels c using le by (intro Math_round_mono) simp
  show "b (scoreToColor s1) \<le> b (scoreToColor s2)"
    unfolding scoreToColor_channels c using le by (intro Math_round_mono) simp
qed

theorem scoreToColor_interpolation_witness:
  "(0 :: real) \<le> 1 / 4 \<and> (1 / 4 :: real) < 1 / 2 \<and> (1 / 2 :: real) \<le> 1
   \<and> r (scoreToColor (1 / 2)) \<le> r (scoreToColor (1 / 4))
   \<and> g (scoreToColor (1 / 4)) \<le> g (scoreToColor (1 / 2))
   \<and> b (scoreToColor (1 / 4)) \<le> b (scoreToColor (1 / 2))
   \<and> scoreToColor (1 / 4) = \<lparr> r = 170, g = 83, b = 60 \<rparr>
   \<and> scoreToColor (1 / 2) = \<lparr> r = 120, g = 125, b = 80 \<rparr>"
proof -
  have "r (scoreToColor (1 / 2)) \<le> r (scoreToColor (1 / 4))
      \<and> g (scoreToColor (1 / 4)) \<le> g (scoreToColor (1 / 2))
      \<and> b (scoreToColor (1 / 4)) \<le> b (scoreToColor (1 / 2))"
    using scoreToColor_interpolation [of 0] by simp
  moreover have "scoreToColor (1 / 4) = \<lparr> r = 170, g = 83, b = 60 \<rparr>"
    by (simp add: scoreToColor_def lerp_def Math_round_def)
  moreover have "scoreToColor (1 / 2) = \<lparr> r = 120, g = 125, b = 80 \<rparr>"
    by (simp add: scoreToColor_def lerp_def Math_round_def)
  ultimately show ?thesis by simp
qed

section \<open>Properties of the distortion\<close>

lemma subdivide_stop:
  "extraPoints < i \<Longrightarrow> subdivide k l px py tx ty extraPoints i gen = ([], gen)"
  by (simp add: subdivide.simps)

lemma subdivide_step:
  "i \<le> extraPoints \<Longrightarrow>
   subdivide k l px py tx ty extraPoints i (f, n) =
     (LineTo (px + (tx - px) * (real_of_int i / real_of_int (extraPoints + 1))
                + (f n - 1 / 2) * (l * k))
             (py + (ty - py) * (real_of_int i / real_of_int (extraPoints + 1))
                + (f (Suc n) - 1 / 2) * (l * k))
        # fst (subdivide k l px py tx ty extraPoints (i + 1) (f, Suc (Suc n))),
      snd (subdivide k l px py tx ty extraPoints (i + 1) (f, Suc (Suc n))))"
  by (subst subdivide.simps) (simp add: Math_random_def Let_def split_beta)

lemma subdivide_closed:
  "nat (extraPoints + 1 - i) = m \<Longrightarrow>
   subdivide k l px py tx ty extraPoints i (f, n) =
     (map (\<lambda>j. LineTo
                  (px + (tx - px) * (real_of_int (i + int j) / real_of_int (extraPoints + 1))
                     + (f (n + 2 * j) - 1 / 2) * (l * k))
                  (py + (ty - py) * (real_of_int (i + int j) / real_of_int (extraPoints + 1))
                     + (f (n + 2 * j + 1) - 1 / 2) * (l * k)))
        [0..<m],
      (f, n + 2 * m))"
proof (induction m arbitrary: i n)
  case 0
  then have "extraPoints < i" by simp
  then show ?case by (simp add: subdivide_stop)
next
  case (Suc m)
  then have le: "i \<le> extraPoints" and m: "nat (extraPoints + 1 - (i + 1)) = m"
    by simp_all
  have up: "[0..<Suc m] = 0 # map Suc [0..<m]"
    by (simp add: upt_conv_Cons map_Suc_upt del: upt_Suc)
  show ?case
    unfolding subdivide_step [OF le] Suc.IH [OF m] up
    by (simp add: comp_def add.assoc)
qed


lemma subdivide_from_1:
  "subdivide k l px py tx ty extraPoints 1 (f, n) =
     (map (\<lambda>j. LineTo
                  (px + (tx - px) * (real_of_int (1 + int j) / real_of_int (extraPoints + 1))
                     + (f (n + 2 * j) - 1 / 2) * (l * k))
                  (py + (ty - py) * (real_of_int (1 + int j) / real_of_int (extraPoints + 1))
                     + (f (n + 2 * j + 1) - 1 / 2) * (l * k)))
        [0..<nat extraPoints],
      (f, n + 2 * nat extraPoints))"
  by (rule subdivide_closed) simp

lemma jitter_bound:
  fixes v l k :: real
  assumes "0 \<le> v" "v < 1" "0 \<le> l" "0 \<le> k"
  shows "\<bar>(v - 1 / 2) * (l * k)\<bar> \<le> l * (k / 2)"
proof -
  have "\<bar>v - 1 / 2\<bar> \<le> 1 / 2" using assms by linarith
  moreover have "0 \<le> l * k" using assms by simp
  ultimately have "\<bar>v - 1 / 2\<bar> * (l * k) \<le> (1 / 2) * (l * k)"
    by (rule mult_right_mono)
  then show ?thesis using assms by (simp add: abs_mult)
qed

lemma interior_conforms:
  assumes range: "\<forall>j. 0 \<le> f j \<and> f j < 1" and l: "0 \<le> l" and k: "0 \<le> k"
  shows "list_all2 conforms (fst (subdivide k l px py tx ty extraPoints 1 (f, n)))
           (expectedInterior (l * (k / 2)) extraPoints px py tx ty)"
  unfolding subdivide_from_1 expectedInterior_def fst_conv
proof (rule list_all2_all_nthI)
  show "length (map (\<lambda>j. LineTo
                  (px + (tx - px) * (real_of_int (1 + int j) / real_of_int (extraPoints + 1))
                     + (f (n + 2 * j) - 1 / 2) * (l * k))
                  (py + (ty - py) * (real_of_int (1 + int j) / real_of_int (extraPoints + 1))
                     + (f (n + 2 * j + 1) - 1 / 2) * (l * k)))
        [0..<nat extraPoints])
      = length (map (\<lambda>i. Jittered
                (px + (tx - px) * (real_of_int i / real_of_int (extraPoints + 1)))
                (py + (ty - py) * (real_of_int i / real_of_int (extraPoints + 1)))
                (l * (k / 2)))
       [1..extraPoints])"
    by simp
next
  fix j
  assume "j < length (map (\<lambda>j. LineTo
                  (px + (tx - px) * (real_of_int (1 + int j) / real_of_int (extraPoints + 1))
                     + (f (n + 2 * j) - 1 / 2) * (l * k))
                  (py + (ty - py) * (real_of_int (1 + int j) / real_of_int (extraPoints + 1))
                     + (f (n + 2 * j + 1) - 1 / 2) * (l * k)))
        [0..<nat extraPoints])"
  then have j: "j < nat extraPoints" by simp
  then have nth: "[1..extraPoints] ! j = 1 + int j"
    by (intro nth_upto) linarith
  have len: "j < length [1..extraPoints]" using j by simp
  have b1: "\<bar>(f (n + 2 * j) - 1 / 2) * (l * k)\<bar> \<le> l * (k / 2)"
    using range l k by (intro jitter_bound) auto
  have b2: "\<bar>(f (n + 2 * j + 1) - 1 / 2) * (l * k)\<bar> \<le> l * (k / 2)"
    using range l k by (intro jitter_bound) auto
  show "conforms
          (map (\<lambda>j. LineTo
                  (px + (tx - px) * (real_of_int (1 + int j) / real_of_int (extraPoints + 1))
                     + (f (n + 2 * j) - 1 / 2) * (l * k))
                  (py + (ty - py) * (real_of_int (1 + int j) / real_of_int (extraPoints + 1))
                     + (f (n + 2 * j + 1) - 1 / 2) * (l * k)))
             [0..<nat extraPoints] ! j)
          (map (\<lambda>i. Jittered
                (px + (tx - px) * (real_of_int i / real_of_int (extraPoints + 1)))
                (py + (ty - py) * (real_of_int i / real_of_int (extraPoints + 1)))
                (l * (k / 2)))
             [1..extraPoints] ! j)"
    using j len b1 b2 by (simp add: nth)
qed


lemma subdivide_snd:
  "snd (subdivide k l px py tx ty extraPoints 1 (f, n)) = (f, n + 2 * nat extraPoints)"
  by (simp add: subdivide_from_1)

lemma subdivide_length:
  "length (fst (subdivide k l px py tx ty extraPoints 1 (f, n))) = nat extraPoints"
  by (simp add: subdivide_from_1)

lemma subdivide_all_LineTo:
  "list_all isLineTo (fst (subdivide k l px py tx ty extraPoints 1 (f, n)))"
  by (simp add: subdivide_from_1 list_all_iff)

lemma subdivide_agree:
  assumes "\<forall>j < 2 * nat extraPoints. f (n + j) = f' (n' + j)"
  shows "fst (subdivide k l px py tx ty extraPoints 1 (f, n))
       = fst (subdivide k l px py tx ty extraPoints 1 (f', n'))"
proof -
  have "f (n + 2 * j) = f' (n' + 2 * j) \<and> f (n + 2 * j + 1) = f' (n' + 2 * j + 1)"
    if "j < nat extraPoints" for j
  proof -
    have "2 * j < 2 * nat extraPoints" "2 * j + 1 < 2 * nat extraPoints"
      using that by simp_all
    then show ?thesis using assms by (metis add.assoc)
  qed
  then show ?thesis by (simp add: subdivide_from_1)
qed

lemma distortCommands_conforms:
  assumes range: "\<forall>j. 0 \<le> f j \<and> f j < 1" and l: "0 \<le> l"
  shows "list_all2 conforms (fst (distortCommands l e px py cmds (f, n)))
           (expectedPath l e px py cmds)"
proof (induction cmds arbitrary: px py n)
  case Nil
  show ?case by simp
next
  case (Cons c cmds)
  show ?case
  proof (cases c)
    case (MoveTo x y)
    then show ?thesis using Cons.IH [of x y n] by (simp add: split_beta)
  next
    case (LineTo x y)
    have "list_all2 conforms (fst (subdivide 6 l px py x y e 1 (f, n)))
            (expectedInterior (l * 3) e px py x y)"
      using interior_conforms [OF range l, of 6 px py x y e n] by simp
    then show ?thesis
      using LineTo Cons.IH [of x y "n + 2 * nat e"]
      by (simp add: split_beta subdivide_snd list_all2_appendI)
  next
    case (QuadraticTo x1 y1 x y)
    have "list_all2 conforms (fst (subdivide 10 l px py x y e 1 (f, n)))
            (expectedInterior (l * 5) e px py x y)"
      using interior_conforms [OF range l, of 10 px py x y e n] by simp
    then show ?thesis
      using QuadraticTo Cons.IH [of x y "n + 2 * nat e"]
      by (simp add: split_beta subdivide_snd list_all2_appendI)
  next
    case (CubicTo x1 y1 x2 y2 x y)
    have "list_all2 conforms (fst (subdivide 10 l px py x y e 1 (f, n)))
            (expectedInterior (l * 5) e px py x y)"
      using interior_conforms [OF range l, of 10 px py x y e n] by simp
    then show ?thesis
      using CubicTo Cons.IH [of x y "n + 2 * nat e"]
      by (simp add: split_beta subdivide_snd list_all2_appendI)
  next
    case ClosePath
    then show ?thesis using Cons.IH [of px py n] by (simp add: split_beta)
  qed
qed

lemma distortCommands_draws:
  "snd (distortCommands l e px py cmds (f, n)) = (f, n + 2 * nat e * segmentCount cmds)"
proof (induction cmds arbitrary: px py n)
  case Nil
  show ?case by (simp add: segmentCount_def)
next
  case (Cons c cmds)
  show ?case
    by (cases c)
       (simp_all add: split_beta subdivide_snd Cons.IH segmentCount_def algebra_simps)
qed

lemma distortCommands_agree:
  assumes "\<forall>j < 2 * nat e * segmentCount cmds. f (n + j) = f' (n' + j)"
  shows "fst (distortCommands l e px py cmds (f, n))
       = fst (distortCommands l e px py cmds (f', n'))"
  using assms
proof (induction cmds arbitrary: px py n n')
  case Nil
  show ?case by simp
next
  case (Cons c cmds)
  have seg: "fst (subdivide k l px py x y e 1 (f, n)) = fst (subdivide k l px py x y e 1 (f', n'))
      \<and> fst (distortCommands l e x y cmds (f, n + 2 * nat e))
        = fst (distortCommands l e x y cmds (f', n' + 2 * nat e))"
    if "isSegment c" for k x y
  proof -
    from that have cnt: "segmentCount (c # cmds) = Suc (segmentCount cmds)"
      by (simp add: segmentCount_def)
    have all: "\<forall>j < 2 * nat e + 2 * nat e * segmentCount cmds. f (n + j) = f' (n' + j)"
      using Cons.prems by (simp add: cnt)
    then have "\<forall>j < 2 * nat e. f (n + j) = f' (n' + j)" by simp
    then have first: "fst (subdivide k l px py x y e 1 (f, n))
        = fst (subdivide k l px py x y e 1 (f', n'))"
      by (rule subdivide_agree)
    have "\<forall>j < 2 * nat e * segmentCount cmds.
            f (n + 2 * nat e + j) = f' (n' + 2 * nat e + j)"
    proof (intro allI impI)
      fix j assume "j < 2 * nat e * segmentCount cmds"
      then have "2 * nat e + j < 2 * nat e + 2 * nat e * segmentCount cmds" by simp
      with all have "f (n + (2 * nat e + j)) = f' (n' + (2 * nat e + j))" by blast
      then show "f (n + 2 * nat e + j) = f' (n' + 2 * nat e + j)" by (simp add: add.assoc)
    qed
    then have "fst (distortCommands l e x y cmds (f, n + 2 * nat e))
        = fst (distortCommands l e x y cmds (f', n' + 2 * nat e))"
      by (rule Cons.IH)
    with first show ?thesis by simp
  qed
  have noseg: "fst (distortCommands l e x y cmds (f, n)) = fst (distortCommands l e x y cmds (f', n'))"
    if "\<not> isSegment c" for x y
  proof -
    from that have "segmentCount (c # cmds) = segmentCount cmds"
      by (simp add: segmentCount_def)
    with Cons.prems show ?thesis by (intro Cons.IH) simp
  qed
  show ?case
  proof (cases c)
    case (MoveTo x y)
    then show ?thesis using noseg [of x y] by (simp add: split_beta)
  next
    case (LineTo x y)
    then show ?thesis using seg [of 6 x y] by (simp add: split_beta subdivide_snd)
  next
    case (QuadraticTo x1 y1 x y)
    then show ?thesis using seg [of 10 x y] by (simp add: split_beta subdivide_snd)
  next
    case (CubicTo x1 y1 x2 y2 x y)
    then show ?thesis using seg [of 10 x y] by (simp add: split_beta subdivide_snd)
  next
    case ClosePath
    then show ?thesis using noseg [of px py] by (simp add: split_beta)
  qed
qed

lemma distortCommands_blocks:
  "\<exists>bs. list_all2 (\<lambda>blk c. list_all isLineTo blk
                        \<and> length blk = (if isSegment c then nat e else 0)) bs cmds
      \<and> fst (distortCommands l e px py cmds (f, n))
          = concat (map2 (\<lambda>blk c. blk @ [c]) bs cmds)"
proof (induction cmds arbitrary: px py n)
  case Nil
  show ?case by simp
next
  case (Cons c cmds)
  have step: "\<exists>bs. list_all2 (\<lambda>blk c. list_all isLineTo blk
                        \<and> length blk = (if isSegment c then nat e else 0)) bs (c # cmds)
      \<and> blk0 @ c # fst (distortCommands l e x y cmds (f, m))
          = concat (map2 (\<lambda>blk c. blk @ [c]) bs (c # cmds))"
    if "list_all isLineTo blk0" "length blk0 = (if isSegment c then nat e else 0)"
    for blk0 x y m
  proof -
    from Cons.IH [of x y m] obtain bs where
      bs: "list_all2 (\<lambda>blk c. list_all isLineTo blk
                        \<and> length blk = (if isSegment c then nat e else 0)) bs cmds"
      "fst (distortCommands l e x y cmds (f, m)) = concat (map2 (\<lambda>blk c. blk @ [c]) bs cmds)"
      by blast
    show ?thesis
      by (rule exI [of _ "blk0 # bs"]) (use that bs in simp)
  qed
  show ?case
  proof (cases c)
    case (MoveTo x y)
    then have "fst (distortCommands l e px py (c # cmds) (f, n))
        = [] @ c # fst (distortCommands l e x y cmds (f, n))"
      by (simp add: split_beta)
    then show ?thesis
      unfolding MoveTo by (simp only:) (rule step [unfolded MoveTo], simp_all)
  next
    case (LineTo x y)
    then have "fst (distortCommands l e px py (c # cmds) (f, n))
        = fst (subdivide 6 l px py x y e 1 (f, n))
          @ c # fst (distortCommands l e x y cmds (f, n + 2 * nat e))"
      by (simp add: split_beta subdivide_snd)
    then show ?thesis
      unfolding LineTo
      by (simp only:)
         (rule step [unfolded LineTo], simp_all add: subdivide_length subdivide_all_LineTo)
  next
    case (QuadraticTo x1 y1 x y)
    then have "fst (distortCommands l e px py (c # cmds) (f, n))
        = fst (subdivide 10 l px py x y e 1 (f, n))
          @ c # fst (distortCommands l e x y cmds (f, n + 2 * nat e))"
      by (simp add: split_beta subdivide_snd)
    then show ?thesis
      unfolding QuadraticTo
      by (simp only:)
         (rule step [unfolded QuadraticTo], simp_all add: subdivide_length subdivide_all_LineTo)
  next
    case (CubicTo x1 y1 x2 y2 x y)
    then have "fst (distortCommands l e px py (c # cmds) (f, n))
        = fst (subdivide 10 l px py x y e 1 (f, n))
          @ c # fst (distortCommands l e x y cmds (f, n + 2 * nat e))"
      by (simp add: split_beta subdivide_snd)
    then show ?thesis
      unfolding CubicTo
      by (simp only:)
         (rule step [unfolded CubicTo], simp_all add: subdivide_length subdivide_all_LineTo)
  next
    case ClosePath
    then have "fst (distortCommands l e px py (c # cmds) (f, n))
        = [] @ c # fst (distortCommands l e px py cmds (f, n))"
      by (simp add: split_beta)
    then show ?thesis
      unfolding ClosePath by (simp only:) (rule step [unfolded ClosePath], simp_all)
  qed
qed


lemma expectedPath_no_points:
  "e \<le> 0 \<Longrightarrow> list_all2 conforms cmds (expectedPath l e px py cmds)"
proof (induction cmds arbitrary: px py)
  case Nil
  show ?case by simp
next
  case (Cons c cmds)
  then show ?case by (cases c) (simp_all add: expectedInterior_def)
qed

lemma Math_round_nonpos: "v \<le> 0 \<Longrightarrow> Math_round v \<le> 0"
  unfolding Math_round_def by linarith

text \<open>
  Claim C1. At level \<open>1\<close>, with \<^verbatim>\<open>MAX_EXTRA_POINTS = 10\<close>, the output of \<open>distortPath\<close> is
  the input with one block of new commands put before each original command: a block of
  exactly \<open>10\<close> \<open>LineTo\<close> commands before every \<open>LineTo\<close>, \<open>QuadraticTo\<close> and \<open>CubicTo\<close>,
  and an empty block before every \<open>MoveTo\<close> and \<open>ClosePath\<close>. So every original command is
  in the output, unchanged and in its original order.
\<close>

theorem distortPath_level_1:
  "\<exists>bs. list_all2 (\<lambda>blk c. list_all isLineTo blk
                        \<and> length blk = (if isSegment c then 10 else 0)) bs commands
      \<and> fst (distortPath commands 1 gen) = concat (map2 (\<lambda>blk c. blk @ [c]) bs commands)"
proof -
  obtain f n where gen: "gen = (f, n)" by (cases gen)
  have run: "distortPath commands 1 gen = distortCommands 1 10 0 0 commands (f, n)"
    by (simp add: distortPath_def MAX_EXTRA_POINTS_def Math_round_def gen)
  have ten: "nat (10 :: int) = 10"
    by simp
  show ?thesis
    unfolding run using distortCommands_blocks [of 10 commands 1 0 0 f n] unfolding ten .
qed

theorem distortPath_level_1_witness:
  "(\<exists>bs. list_all2 (\<lambda>blk c. list_all isLineTo blk
                        \<and> length blk = (if isSegment c then 10 else 0)) bs
            [MoveTo 0 0, LineTo 11 0, ClosePath]
      \<and> fst (distortPath [MoveTo 0 0, LineTo 11 0, ClosePath] 1 (\<lambda>n. 1 / 2, 0))
          = concat (map2 (\<lambda>blk c. blk @ [c]) bs [MoveTo 0 0, LineTo 11 0, ClosePath]))
   \<and> fst (distortPath [MoveTo 0 0, LineTo 11 0, ClosePath] 1 (\<lambda>n. 1 / 2, 0))
       = [MoveTo 0 0, LineTo 1 0, LineTo 2 0, LineTo 3 0, LineTo 4 0, LineTo 5 0, LineTo 6 0,
          LineTo 7 0, LineTo 8 0, LineTo 9 0, LineTo 10 0, LineTo 11 0, ClosePath]"
proof
  show "\<exists>bs. list_all2 (\<lambda>blk c. list_all isLineTo blk
                        \<and> length blk = (if isSegment c then 10 else 0)) bs
            [MoveTo 0 0, LineTo 11 0, ClosePath]
      \<and> fst (distortPath [MoveTo 0 0, LineTo 11 0, ClosePath] 1 (\<lambda>n. 1 / 2, 0))
          = concat (map2 (\<lambda>blk c. blk @ [c]) bs [MoveTo 0 0, LineTo 11 0, ClosePath])"
    by (rule distortPath_level_1)
  show "fst (distortPath [MoveTo 0 0, LineTo 11 0, ClosePath] 1 (\<lambda>n. 1 / 2, 0))
       = [MoveTo 0 0, LineTo 1 0, LineTo 2 0, LineTo 3 0, LineTo 4 0, LineTo 5 0, LineTo 6 0,
          LineTo 7 0, LineTo 8 0, LineTo 9 0, LineTo 10 0, LineTo 11 0, ClosePath]"
    by (simp add: distortPath_def MAX_EXTRA_POINTS_def Math_round_def subdivide.simps
          Math_random_def)
qed

text \<open>
  Claim C8. \<open>distortPath\<close> leaves the commands as they are whenever the level is at most
  \<open>0\<close>, and whenever \<open>extraPoints = round(level * MAX_EXTRA_POINTS)\<close> is at most \<open>0\<close>; it
  draws no random value then.
\<close>

theorem distortPath_noop:
  "distortionLevel \<le> 0 \<or> Math_round (distortionLevel * MAX_EXTRA_POINTS) \<le> 0 \<Longrightarrow>
   distortPath commands distortionLevel gen = (commands, gen)"
  by (auto simp: distortPath_def)

theorem distortPath_noop_witness:
  "(0 :: real) \<le> 0
   \<and> distortPath [MoveTo 0 0, LineTo 3 4, ClosePath] 0 (\<lambda>n. 0, 0)
       = ([MoveTo 0 0, LineTo 3 4, ClosePath], (\<lambda>n. 0, 0))
   \<and> Math_round (1 / 25 * MAX_EXTRA_POINTS) \<le> 0
   \<and> distortPath [MoveTo 0 0, LineTo 3 4, ClosePath] (1 / 25) (\<lambda>n. 0, 0)
       = ([MoveTo 0 0, LineTo 3 4, ClosePath], (\<lambda>n. 0, 0))"
proof -
  have small: "Math_round (1 / 25 * MAX_EXTRA_POINTS) \<le> 0"
    by (simp add: Math_round_def MAX_EXTRA_POINTS_def)
  have "distortPath [MoveTo 0 0, LineTo 3 4, ClosePath] 0 (\<lambda>n. 0, 0)
       = ([MoveTo 0 0, LineTo 3 4, ClosePath], (\<lambda>n. 0, 0))"
    by (rule distortPath_noop) simp
  moreover have "distortPath [MoveTo 0 0, LineTo 3 4, ClosePath] (1 / 25) (\<lambda>n. 0, 0)
       = ([MoveTo 0 0, LineTo 3 4, ClosePath], (\<lambda>n. 0, 0))"
    using small by (intro distortPath_noop) simp
  ultimately show ?thesis using small by simp
qed

text \<open>
  Claim C3, as amended. The loop over one subdivided segment draws exactly
  \<open>2 * extraPoints\<close> values from \<^verbatim>\<open>Math.random\<close>, and a call of \<open>distortPath\<close> that many for
  each \<open>LineTo\<close>, \<open>QuadraticTo\<close> and \<open>CubicTo\<close> of the path; the output is determined by the
  path, the level and the values drawn during the call, so two runs that draw the same
  values give the same output. The generator is the global \<^verbatim>\<open>Math.random\<close>, not an
  argument of \<open>distortPath\<close>.
\<close>

theorem distortPath_draws:
  "snd (subdivide k level prevX prevY targetX targetY extraPoints 1 (f, n))
     = (f, n + 2 * nat extraPoints)
   \<and> snd (distortPath commands level (f, n))
     = (f, n + 2 * nat (Math_round (level * MAX_EXTRA_POINTS)) * segmentCount commands)
   \<and> ((\<forall>j < 2 * nat (Math_round (level * MAX_EXTRA_POINTS)) * segmentCount commands.
          f (n + j) = f' (n' + j))
      \<longrightarrow> fst (distortPath commands level (f, n)) = fst (distortPath commands level (f', n')))"
proof (intro conjI impI)
  show "snd (subdivide k level prevX prevY targetX targetY extraPoints 1 (f, n))
     = (f, n + 2 * nat extraPoints)"
    by (rule subdivide_snd)
  show "snd (distortPath commands level (f, n))
     = (f, n + 2 * nat (Math_round (level * MAX_EXTRA_POINTS)) * segmentCount commands)"
    using Math_round_nonpos [of "level * MAX_EXTRA_POINTS"]
    by (auto simp: distortPath_def Let_def distortCommands_draws MAX_EXTRA_POINTS_def
          mult_le_0_iff)
next
  assume "\<forall>j < 2 * nat (Math_round (level * MAX_EXTRA_POINTS)) * segmentCount commands.
          f (n + j) = f' (n' + j)"
  then have "fst (distortCommands level (Math_round (level * MAX_EXTRA_POINTS)) 0 0 commands (f, n))
      = fst (distortCommands level (Math_round (level * MAX_EXTRA_POINTS)) 0 0 commands (f', n'))"
    by (rule distortCommands_agree)
  then show "fst (distortPath commands level (f, n)) = fst (distortPath commands level (f', n'))"
    by (simp add: distortPath_def Let_def)
qed

theorem distortPath_draws_witness:
  "snd (distortPath [MoveTo 0 0, LineTo 4 0, QuadraticTo 1 1 4 4, ClosePath] (1 / 10) (\<lambda>n. 0, 0))
     = (\<lambda>n. 0, 4)
   \<and> fst (distortPath [MoveTo 0 0, LineTo 4 0, QuadraticTo 1 1 4 4, ClosePath] (1 / 10)
          (\<lambda>n. 0, 0))
     = fst (distortPath [MoveTo 0 0, LineTo 4 0, QuadraticTo 1 1 4 4, ClosePath] (1 / 10)
          (\<lambda>n. if n < 4 then 0 else 1 / 2, 0))"
proof -
  have e: "nat (Math_round (1 / 10 * MAX_EXTRA_POINTS)) = 1"
    by (simp add: Math_round_def MAX_EXTRA_POINTS_def)
  have c: "segmentCount [MoveTo 0 0, LineTo 4 0, QuadraticTo 1 1 4 4, ClosePath] = 2"
    by (simp add: segmentCount_def)
  note draws = distortPath_draws [of 6 "1 / 10" 0 0 4 0 1 "\<lambda>n. 0" 0
      "[MoveTo 0 0, LineTo 4 0, QuadraticTo 1 1 4 4, ClosePath]"
      "\<lambda>n. if n < 4 then 0 else 1 / 2" 0, unfolded e c]
  from draws show ?thesis by simp
qed

text \<open>
  Claim C3 as stated has the random source an injected parameter of \<open>distortPath\<close>, so that
  the arguments of a call determine its output. They do not: two successive calls with the
  same path and the same level, the second starting where the first left the global
  generator, give different outputs.
\<close>

theorem distortPath_ambient_counterexample:
  "fst (distortPath [LineTo 2 0] (1 / 20) (\<lambda>n. if n < 2 then 0 else 1 / 2, 0))
     = [LineTo (17 / 20) (- 3 / 20), LineTo 2 0]
   \<and> fst (distortPath [LineTo 2 0] (1 / 20)
          (snd (distortPath [LineTo 2 0] (1 / 20) (\<lambda>n. if n < 2 then 0 else 1 / 2, 0))))
     = [LineTo 1 0, LineTo 2 0]
   \<and> fst (distortPath [LineTo 2 0] (1 / 20) (\<lambda>n. if n < 2 then 0 else 1 / 2, 0))
     \<noteq> fst (distortPath [LineTo 2 0] (1 / 20)
          (snd (distortPath [LineTo 2 0] (1 / 20) (\<lambda>n. if n < 2 then 0 else 1 / 2, 0))))"
  by (simp add: distortPath_def MAX_EXTRA_POINTS_def Math_round_def subdivide.simps
        Math_random_def)

text \<open>
  Claim C4. Whatever values in \<open>[0, 1)\<close> the generator returns, every point that
  \<open>distortPath\<close> synthesizes is a \<open>LineTo\<close> within \<open>level * 3\<close> on each axis of its
  interpolated base point when it subdivides a \<open>LineTo\<close>, and within \<open>level * 5\<close> when it
  subdivides a \<open>QuadraticTo\<close> or a \<open>CubicTo\<close>; the original commands stand between the
  synthesized ones unchanged.
\<close>

theorem distortPath_jitter_bounds:
  assumes "\<forall>j. 0 \<le> f j \<and> f j < 1"
  shows "list_all2 conforms (fst (distortPath commands level (f, n)))
           (expectedPath level (Math_round (level * MAX_EXTRA_POINTS)) 0 0 commands)"
proof (cases "level \<le> 0 \<or> Math_round (level * MAX_EXTRA_POINTS) \<le> 0")
  case True
  then have e: "Math_round (level * MAX_EXTRA_POINTS) \<le> 0"
    using Math_round_nonpos [of "level * MAX_EXTRA_POINTS"]
    by (auto simp: MAX_EXTRA_POINTS_def mult_le_0_iff)
  from True have "fst (distortPath commands level (f, n)) = commands"
    by (auto simp: distortPath_def)
  with e show ?thesis by (simp add: expectedPath_no_points)
next
  case False
  then have "fst (distortPath commands level (f, n))
      = fst (distortCommands level (Math_round (level * MAX_EXTRA_POINTS)) 0 0 commands (f, n))"
    by (simp add: distortPath_def Let_def)
  moreover from False have "0 \<le> level" by simp
  ultimately show ?thesis using assms by (simp add: distortCommands_conforms)
qed

theorem distortPath_jitter_bounds_witness:
  "(\<forall>j. (0 :: real) \<le> (\<lambda>n. 0) j \<and> (\<lambda>n. 0 :: real) j < 1)
   \<and> list_all2 conforms
        (fst (distortPath [MoveTo 0 0, LineTo 4 0, QuadraticTo 1 1 4 4] (1 / 10) (\<lambda>n. 0, 0)))
        (expectedPath (1 / 10) (Math_round (1 / 10 * MAX_EXTRA_POINTS)) 0 0
           [MoveTo 0 0, LineTo 4 0, QuadraticTo 1 1 4 4])
   \<and> fst (distortPath [MoveTo 0 0, LineTo 4 0, QuadraticTo 1 1 4 4] (1 / 10) (\<lambda>n. 0, 0))
       = [MoveTo 0 0, LineTo (2 - 3 / 10) (0 - 3 / 10), LineTo 4 0,
          LineTo (4 - 5 / 10) (2 - 5 / 10), QuadraticTo 1 1 4 4]
   \<and> expectedPath (1 / 10) (Math_round (1 / 10 * MAX_EXTRA_POINTS)) 0 0
        [MoveTo 0 0, LineTo 4 0, QuadraticTo 1 1 4 4]
       = [Unchanged (MoveTo 0 0), Jittered 2 0 (3 / 10), Unchanged (LineTo 4 0),
          Jittered 4 2 (5 / 10), Unchanged (QuadraticTo 1 1 4 4)]"
proof -
  have range: "\<forall>j. (0 :: real) \<le> (\<lambda>n. 0) j \<and> (\<lambda>n. 0 :: real) j < 1"
    by simp
  have "list_all2 conforms
        (fst (distortPath [MoveTo 0 0, LineTo 4 0, QuadraticTo 1 1 4 4] (1 / 10) (\<lambda>n. 0, 0)))
        (expectedPath (1 / 10) (Math_round (1 / 10 * MAX_EXTRA_POINTS)) 0 0
           [MoveTo 0 0, LineTo 4 0, QuadraticTo 1 1 4 4])"
    using range by (rule distortPath_jitter_bounds)
  moreover have "fst (distortPath [MoveTo 0 0, LineTo 4 0, QuadraticTo 1 1 4 4] (1 / 10)
          (\<lambda>n. 0, 0))
       = [MoveTo 0 0, LineTo (2 - 3 / 10) (0 - 3 / 10), LineTo 4 0,
          LineTo (4 - 5 / 10) (2 - 5 / 10), QuadraticTo 1 1 4 4]"
    by (simp add: distortPath_def MAX_EXTRA_POINTS_def Math_round_def subdivide.simps
          Math_random_def)
  moreover have "expectedPath (1 / 10) (Math_round (1 / 10 * MAX_EXTRA_POINTS)) 0 0
        [MoveTo 0 0, LineTo 4 0, QuadraticTo 1 1 4 4]
       = [Unchanged (MoveTo 0 0), Jittered 2 0 (3 / 10), Unchanged (LineTo 4 0),
          Jittered 4 2 (5 / 10), Unchanged (QuadraticTo 1 1 4 4)]"
    by (simp add: MAX_EXTRA_POINTS_def Math_round_def expectedInterior_def upto.simps)
  ultimately show ?thesis using range by simp
qed

section \<open>Properties of the text layout\<close>

lemma fold_add_widths:
  "fold (\<lambda>ch width. width + w ch) str acc = acc + (\<Sum>ch\<leftarrow>str. w ch)"
  for acc :: real
  by (induction str arbitrary: acc) simp_all

lemma measureLineWidth_sum_list:
  "measureLineWidth str fnt scale letterSpacing
     = (\<Sum>ch\<leftarrow>str. advanceWidth (charToGlyph fnt ch) * scale + letterSpacing)"
  by (simp add: measureLineWidth_def fold_add_widths)

lemma measureLineWidth_append:
  "measureLineWidth (s @ t) fnt scale letterSpacing
     = measureLineWidth s fnt scale letterSpacing + measureLineWidth t fnt scale letterSpacing"
  by (simp add: measureLineWidth_sum_list)

text \<open>
  Claim C7. For every string, \<open>measureLineWidth\<close> is the sum over its characters of
  \<open>advanceWidth * scale + letterSpacing\<close>, the letter spacing counted once for every
  character, the last one too; with the advances \<open>A = 600\<close> and \<open>B = 500\<close>, the scale
  \<open>100 / 1000\<close> and the letter spacing \<open>2\<close>, the width of \<open>AB\<close> is
  \<open>600 * 0.1 + 2 + 500 * 0.1 + 2 = 114\<close>.
\<close>

theorem measureLineWidth_per_character:
  "measureLineWidth str fnt scale letterSpacing
     = (\<Sum>ch\<leftarrow>str. advanceWidth (charToGlyph fnt ch) * scale + letterSpacing)
   \<and> measureLineWidth str fnt scale letterSpacing
     = (\<Sum>ch\<leftarrow>str. advanceWidth (charToGlyph fnt ch) * scale)
       + real (length str) * letterSpacing
   \<and> (advanceWidth (charToGlyph fnt CHR ''A'') = 600
        \<and> advanceWidth (charToGlyph fnt CHR ''B'') = 500
      \<longrightarrow> measureLineWidth ''AB'' fnt (100 / 1000) 2 = 600 * (1 / 10) + 2 + (500 * (1 / 10) + 2)
        \<and> measureLineWidth ''AB'' fnt (100 / 1000) 2 = 114)"
proof (intro conjI impI)
  show "measureLineWidth str fnt scale letterSpacing
     = (\<Sum>ch\<leftarrow>str. advanceWidth (charToGlyph fnt ch) * scale + letterSpacing)"
    by (rule measureLineWidth_sum_list)
  show "measureLineWidth str fnt scale letterSpacing
     = (\<Sum>ch\<leftarrow>str. advanceWidth (charToGlyph fnt ch) * scale)
       + real (length str) * letterSpacing"
    unfolding measureLineWidth_sum_list
    by (induction str) (simp_all add: algebra_simps)
next
  assume a: "advanceWidth (charToGlyph fnt CHR ''A'') = 600
        \<and> advanceWidth (charToGlyph fnt CHR ''B'') = 500"
  then show "measureLineWidth ''AB'' fnt (100 / 1000) 2 = 600 * (1 / 10) + 2 + (500 * (1 / 10) + 2)"
    by (simp add: measureLineWidth_sum_list)
  from a show "measureLineWidth ''AB'' fnt (100 / 1000) 2 = 114"
    by (simp add: measureLineWidth_sum_list)
qed

theorem measureLineWidth_per_character_witness:
  "advanceWidth (charToGlyph
       \<lparr> charToGlyph = (\<lambda>ch. \<lparr> advanceWidth = (if ch = CHR ''A'' then 600 else 500),
                                getPath = (\<lambda>x y fontSize. []) \<rparr>),
         unitsPerEm = 1000 \<rparr> CHR ''A'') = 600
   \<and> advanceWidth (charToGlyph
       \<lparr> charToGlyph = (\<lambda>ch. \<lparr> advanceWidth = (if ch = CHR ''A'' then 600 else 500),
                                getPath = (\<lambda>x y fontSize. []) \<rparr>),
         unitsPerEm = 1000 \<rparr> CHR ''B'') = 500
   \<and> measureLineWidth ''AB''
       \<lparr> charToGlyph = (\<lambda>ch. \<lparr> advanceWidth = (if ch = CHR ''A'' then 600 else 500),
                                getPath = (\<lambda>x y fontSize. []) \<rparr>),
         unitsPerEm = 1000 \<rparr> (100 / 1000) 2 = 114"
  using measureLineWidth_per_character
    [of "''AB''" "\<lparr> charToGlyph = (\<lambda>ch. \<lparr> advanceWidth = (if ch = CHR ''A'' then 600 else 500),
                                getPath = (\<lambda>x y fontSize. []) \<rparr>),
         unitsPerEm = 1000 \<rparr>" "100 / 1000" 2]
  by simp


lemma isWhiteSpace_space: "isWhiteSpace CHR '' ''"
  by (simp add: isWhiteSpace_def)

lemma no_whitespace_take:
  "list_all (\<lambda>ch. \<not> isWhiteSpace ch) w \<Longrightarrow> takeWhile (\<lambda>ch. \<not> isWhiteSpace ch) (w @ t)
     = w @ takeWhile (\<lambda>ch. \<not> isWhiteSpace ch) t"
  by (induction w) simp_all

lemma no_whitespace_drop:
  "list_all (\<lambda>ch. \<not> isWhiteSpace ch) w \<Longrightarrow> dropWhile (\<lambda>ch. \<not> isWhiteSpace ch) (w @ t)
     = dropWhile (\<lambda>ch. \<not> isWhiteSpace ch) t"
  by (induction w) simp_all

lemma split_whitespace_word:
  assumes "list_all (\<lambda>ch. \<not> isWhiteSpace ch) w"
  shows "split_whitespace w = [w]"
proof -
  have "dropWhile (\<lambda>ch. \<not> isWhiteSpace ch) w = []"
    using assms by (simp add: list_all_iff)
  then show ?thesis
    by (subst split_whitespace.simps) (simp only: list.case)
qed

lemma split_whitespace_word_space:
  assumes "list_all (\<lambda>ch. \<not> isWhiteSpace ch) w" and "isWhiteSpace c"
  shows "split_whitespace (w @ c # rest) = w # split_whitespace (dropWhile isWhiteSpace rest)"
proof -
  have d: "dropWhile (\<lambda>ch. \<not> isWhiteSpace ch) (w @ c # rest) = c # rest"
    unfolding no_whitespace_drop [OF assms(1)] using assms(2) by simp
  have t: "takeWhile (\<lambda>ch. \<not> isWhiteSpace ch) (w @ c # rest) = w"
    unfolding no_whitespace_take [OF assms(1)] using assms(2) by simp
  show ?thesis
    by (subst split_whitespace.simps) (simp only: d t list.case)
qed


lemma isWord_dropWhile: "isWord w \<Longrightarrow> dropWhile isWhiteSpace w = w"
  by (cases w) (simp_all add: isWord_def)

lemma split_whitespace_two_words:
  assumes "isWord w1" and "isWord w2"
  shows "split_whitespace (w1 @ '' '' @ w2) = [w1, w2]"
proof -
  have "split_whitespace (w1 @ CHR '' '' # w2) = w1 # split_whitespace (dropWhile isWhiteSpace w2)"
    using assms(1) by (intro split_whitespace_word_space) (simp_all add: isWord_def isWhiteSpace_space)
  also have "\<dots> = [w1, w2]"
    using assms(2) by (simp add: isWord_dropWhile split_whitespace_word isWord_def)
  finally show ?thesis by simp
qed

lemma layoutStep_rule:
  "layoutStep maxWidth fnt scale letterSpacing (lines, currentLine) word =
     (if currentLine \<noteq> []
          \<and> maxWidth < measureLineWidth (currentLine @ '' '' @ word) fnt scale letterSpacing
      then (lines @ [currentLine], word)
      else (lines, if currentLine = [] then word else currentLine @ '' '' @ word))"
  unfolding layoutStep_def Let_def prod.case by (cases "currentLine = []") simp_all


lemma layout_two_words:
  assumes "isWord w1" and "isWord w2"
  shows "layoutTextIntoLines (w1 @ '' '' @ w2) maxWidth fnt scale letterSpacing =
     (if maxWidth < measureLineWidth (w1 @ '' '' @ w2) fnt scale letterSpacing
      then [w1, w2] else [w1 @ '' '' @ w2])"
proof -
  have ne: "w1 \<noteq> []" "w2 \<noteq> []"
    using assms by (simp_all add: isWord_def)
  have first: "layoutStep maxWidth fnt scale letterSpacing ([], []) w1 = ([], w1)"
    unfolding layoutStep_rule by simp
  have second: "layoutStep maxWidth fnt scale letterSpacing ([], w1) w2 =
     (if maxWidth < measureLineWidth (w1 @ '' '' @ w2) fnt scale letterSpacing
      then ([w1], w2) else ([], w1 @ '' '' @ w2))"
    unfolding layoutStep_rule using ne by simp
  show ?thesis
    unfolding layoutTextIntoLines_def split_whitespace_two_words [OF assms] Let_def
      layoutWords.simps first second
    using ne by simp
qed

lemma layout_one_word:
  assumes "isWord w"
  shows "layoutTextIntoLines w maxWidth fnt scale letterSpacing = [w]"
proof -
  have ne: "w \<noteq> []" and sp: "split_whitespace w = [w]"
    using assms by (simp_all add: isWord_def split_whitespace_word)
  have first: "layoutStep maxWidth fnt scale letterSpacing ([], []) w = ([], w)"
    unfolding layoutStep_rule by simp
  show ?thesis
    unfolding layoutTextIntoLines_def sp Let_def layoutWords.simps first
    using ne by simp
qed

lemma split_whitespace_joinWords:
  "ws \<noteq> [] \<Longrightarrow> list_all isWord ws \<Longrightarrow> split_whitespace (joinWords ws) = ws"
proof (induction ws rule: joinWords.induct)
  case 1
  then show ?case by simp
next
  case (2 w)
  then show ?case by (simp add: split_whitespace_word isWord_def)
next
  case (3 w v ws)
  have j: "dropWhile isWhiteSpace (joinWords (v # ws)) = joinWords (v # ws)"
  proof (cases ws)
    case Nil
    then show ?thesis using 3 by (simp add: isWord_dropWhile)
  next
    case (Cons u us)
    have "isWord v" using 3 by simp
    then obtain c cs where v: "v = c # cs" and c: "\<not> isWhiteSpace c"
      by (cases v) (auto simp: isWord_def)
    then show ?thesis using Cons by simp
  qed
  have "split_whitespace (w @ CHR '' '' # joinWords (v # ws))
      = w # split_whitespace (dropWhile isWhiteSpace (joinWords (v # ws)))"
    using 3 by (intro split_whitespace_word_space) (simp_all add: isWord_def isWhiteSpace_space)
  then show ?case using 3 j by simp
qed


lemma joinWords_append:
  "joinWords (xs @ ys) =
     (if xs = [] then joinWords ys else if ys = [] then joinWords xs
      else joinWords xs @ '' '' @ joinWords ys)"
  by (induction xs rule: joinWords.induct) (auto simp: neq_Nil_conv)

text \<open>The lines that the loop state stands for: the committed ones, then the open one.\<close>

lemma layoutStep_join:
  assumes "word \<noteq> []"
  shows "joinWords (case layoutStep maxWidth fnt scale letterSpacing (lines, cur) word of
                      (ls, c) \<Rightarrow> if c \<noteq> [] then ls @ [c] else ls)
       = joinWords ((if cur \<noteq> [] then lines @ [cur] else lines) @ [word])"
  using assms unfolding layoutStep_rule by (simp add: joinWords_append)

lemma joinWords_append_cong:
  "xs \<noteq> [] \<Longrightarrow> xs' \<noteq> [] \<Longrightarrow> joinWords xs = joinWords xs'
   \<Longrightarrow> joinWords (xs @ ys) = joinWords (xs' @ ys)"
  by (simp add: joinWords_append)

lemma layoutStep_open_line:
  "word \<noteq> [] \<Longrightarrow> snd (layoutStep maxWidth fnt scale letterSpacing (lines, cur) word) \<noteq> []"
  unfolding layoutStep_rule by simp

lemma layoutWords_join:
  assumes "list_all (\<lambda>w. w \<noteq> []) ws"
  shows "joinWords (case layoutWords maxWidth fnt scale letterSpacing ws (lines, cur) of
                      (ls, c) \<Rightarrow> if c \<noteq> [] then ls @ [c] else ls)
       = joinWords ((if cur \<noteq> [] then lines @ [cur] else lines) @ ws)"
  using assms
proof (induction ws arbitrary: lines cur)
  case Nil
  show ?case by simp
next
  case (Cons w ws)
  obtain ls c where st: "layoutStep maxWidth fnt scale letterSpacing (lines, cur) w = (ls, c)"
    by (cases "layoutStep maxWidth fnt scale letterSpacing (lines, cur) w")
  have w: "w \<noteq> []" and ws: "list_all (\<lambda>w. w \<noteq> []) ws"
    using Cons.prems by simp_all
  have c: "c \<noteq> []"
    using layoutStep_open_line [OF w, of maxWidth fnt scale letterSpacing lines cur]
    by (simp add: st)
  have one: "joinWords (ls @ [c])
      = joinWords ((if cur \<noteq> [] then lines @ [cur] else lines) @ [w])"
    using layoutStep_join [OF w, of maxWidth fnt scale letterSpacing lines cur] c
    by (simp add: st)
  have "joinWords (case layoutWords maxWidth fnt scale letterSpacing (w # ws) (lines, cur) of
                      (ls, c) \<Rightarrow> if c \<noteq> [] then ls @ [c] else ls)
      = joinWords ((ls @ [c]) @ ws)"
    using Cons.IH [OF ws, of ls c] c by (simp add: st)
  also have "\<dots> = joinWords (((if cur \<noteq> [] then lines @ [cur] else lines) @ [w]) @ ws)"
    using one by (intro joinWords_append_cong) simp_all
  finally show ?case by simp
qed

lemma layout_preserves_words:
  assumes "ws \<noteq> []" and "list_all isWord ws"
  shows "joinWords (layoutTextIntoLines (joinWords ws) maxWidth fnt scale letterSpacing)
       = joinWords ws"
proof -
  have ne: "list_all (\<lambda>w. w \<noteq> []) ws"
    using assms(2) by (simp add: list_all_iff isWord_def)
  show ?thesis
    using layoutWords_join [OF ne, of maxWidth fnt scale letterSpacing "[]" "[]"]
    by (simp add: layoutTextIntoLines_def split_whitespace_joinWords [OF assms] split_beta)
qed


lemma measureLineWidth_nonneg:
  assumes "\<forall>ch. 0 \<le> advanceWidth (charToGlyph fnt ch) * scale + letterSpacing"
  shows "0 \<le> measureLineWidth s fnt scale letterSpacing"
  unfolding measureLineWidth_sum_list using assms by (intro sum_list_nonneg) auto

lemma layoutWords_append:
  "layoutWords maxWidth fnt scale letterSpacing (xs @ ys) st
     = layoutWords maxWidth fnt scale letterSpacing ys
         (layoutWords maxWidth fnt scale letterSpacing xs st)"
  by (induction xs arbitrary: st) simp_all

lemma layoutWords_keeps_lines:
  "\<exists>more. fst (layoutWords maxWidth fnt scale letterSpacing ws (lines, cur)) = lines @ more"
proof (induction ws arbitrary: lines cur)
  case Nil
  show ?case by simp
next
  case (Cons w ws)
  show ?case
  proof (cases "cur \<noteq> []
      \<and> maxWidth < measureLineWidth (cur @ '' '' @ w) fnt scale letterSpacing")
    case True
    then show ?thesis
      using Cons.IH [of "lines @ [cur]" w] unfolding layoutWords.simps layoutStep_rule by auto
  next
    case False
    then show ?thesis
      using Cons.IH [of lines "if cur = [] then w else cur @ '' '' @ w"]
      unfolding layoutWords.simps layoutStep_rule by auto
  qed
qed

lemma joinWords_snoc:
  "grp \<noteq> [] \<Longrightarrow> joinWords (grp @ [w]) = joinWords grp @ '' '' @ w"
  by (simp add: joinWords_append)

lemma joinWords_nonempty:
  "grp \<noteq> [] \<Longrightarrow> list_all (\<lambda>w. w \<noteq> []) grp \<Longrightarrow> joinWords grp \<noteq> []"
  by (induction grp rule: joinWords.induct) simp_all

lemma prefixesFit_single: "prefixesFit maxWidth fnt scale letterSpacing [w]"
  by (simp add: prefixesFit_def)

lemma prefixesFit_snoc:
  assumes "grp \<noteq> []" and "prefixesFit maxWidth fnt scale letterSpacing grp"
    and "measureLineWidth (joinWords grp @ '' '' @ w) fnt scale letterSpacing \<le> maxWidth"
  shows "prefixesFit maxWidth fnt scale letterSpacing (grp @ [w])"
proof -
  have len: "2 \<le> Suc (length grp)"
    using assms(1) by (cases grp) simp_all
  have up: "[2..<Suc (length (grp @ [w]))] = [2..<Suc (length grp)] @ [Suc (length grp)]"
    using len by simp
  have "take k (grp @ [w]) = take k grp" if "k < Suc (length grp)" for k
    using that by simp
  then have old: "list_all (\<lambda>k. measureLineWidth (joinWords (take k (grp @ [w]))) fnt scale
                 letterSpacing \<le> maxWidth) [2..<Suc (length grp)]"
    using assms(2) unfolding prefixesFit_def list_all_iff by auto
  show ?thesis
    unfolding prefixesFit_def up using old assms(1,3) by (simp add: joinWords_snoc)
qed

lemma greedyGrouping_commit:
  assumes "greedyGrouping maxWidth fnt scale letterSpacing (gs @ [grp])"
    and "maxWidth < measureLineWidth (joinWords grp @ '' '' @ w) fnt scale letterSpacing"
  shows "greedyGrouping maxWidth fnt scale letterSpacing ((gs @ [grp]) @ [[w]])"
  using assms
  by (simp add: greedyGrouping_def successively_append_iff breakForced_def prefixesFit_single)

lemma greedyGrouping_extend:
  assumes "greedyGrouping maxWidth fnt scale letterSpacing (gs @ [grp])" and "grp \<noteq> []"
    and "measureLineWidth (joinWords grp @ '' '' @ w) fnt scale letterSpacing \<le> maxWidth"
  shows "greedyGrouping maxWidth fnt scale letterSpacing (gs @ [grp @ [w]])"
  using assms
  by (auto simp: greedyGrouping_def successively_append_iff breakForced_def prefixesFit_snoc)

lemma layoutWords_grouping:
  assumes "list_all (\<lambda>w. w \<noteq> []) ws"
    and "greedyGrouping maxWidth fnt scale letterSpacing (gs @ [grp])"
    and "grp \<noteq> []" and "list_all (\<lambda>w. w \<noteq> []) grp"
  shows "\<exists>gs' grp'.
      layoutWords maxWidth fnt scale letterSpacing ws (map joinWords gs, joinWords grp)
        = (map joinWords gs', joinWords grp')
      \<and> grp' \<noteq> [] \<and> list_all (\<lambda>w. w \<noteq> []) grp'
      \<and> concat gs' @ grp' = concat gs @ grp @ ws
      \<and> greedyGrouping maxWidth fnt scale letterSpacing (gs' @ [grp'])"
  using assms
proof (induction ws arbitrary: gs grp)
  case Nil
  then show ?case by auto
next
  case (Cons w ws)
  have w: "w \<noteq> []" and ws: "list_all (\<lambda>w. w \<noteq> []) ws"
    using Cons.prems(1) by simp_all
  have cur: "joinWords grp \<noteq> []"
    using Cons.prems(3,4) by (rule joinWords_nonempty)
  show ?case
  proof (cases "maxWidth < measureLineWidth (joinWords grp @ '' '' @ w) fnt scale letterSpacing")
    case True
    have step: "layoutStep maxWidth fnt scale letterSpacing (map joinWords gs, joinWords grp) w
        = (map joinWords (gs @ [grp]), joinWords [w])"
      unfolding layoutStep_rule using True cur by simp
    have "greedyGrouping maxWidth fnt scale letterSpacing ((gs @ [grp]) @ [[w]])"
      using Cons.prems(2) True by (rule greedyGrouping_commit)
    from Cons.IH [OF ws this] w obtain gs' grp' where
      "layoutWords maxWidth fnt scale letterSpacing ws (map joinWords (gs @ [grp]), joinWords [w])
        = (map joinWords gs', joinWords grp')"
      "grp' \<noteq> []" "list_all (\<lambda>w. w \<noteq> []) grp'"
      "concat gs' @ grp' = concat (gs @ [grp]) @ [w] @ ws"
      "greedyGrouping maxWidth fnt scale letterSpacing (gs' @ [grp'])"
      by auto
    then show ?thesis
      unfolding layoutWords.simps step by (intro exI [of _ gs'] exI [of _ grp']) simp
  next
    case False
    have step: "layoutStep maxWidth fnt scale letterSpacing (map joinWords gs, joinWords grp) w
        = (map joinWords gs, joinWords (grp @ [w]))"
      unfolding layoutStep_rule using False cur Cons.prems(3) by (simp add: joinWords_snoc)
    have "greedyGrouping maxWidth fnt scale letterSpacing (gs @ [grp @ [w]])"
      using Cons.prems(2,3) False by (intro greedyGrouping_extend) simp_all
    from Cons.IH [OF ws this] w Cons.prems(4) obtain gs' grp' where
      "layoutWords maxWidth fnt scale letterSpacing ws (map joinWords gs, joinWords (grp @ [w]))
        = (map joinWords gs', joinWords grp')"
      "grp' \<noteq> []" "list_all (\<lambda>w. w \<noteq> []) grp'"
      "concat gs' @ grp' = concat gs @ (grp @ [w]) @ ws"
      "greedyGrouping maxWidth fnt scale letterSpacing (gs' @ [grp'])"
      by auto
    then show ?thesis
      unfolding layoutWords.simps step by (intro exI [of _ gs'] exI [of _ grp']) simp
  qed
qed

lemma split_whitespace_nonempty: "split_whitespace s \<noteq> []"
  by (subst split_whitespace.simps) (simp split: list.splits)

lemma layout_greedy:
  assumes "list_all (\<lambda>w. w \<noteq> []) (split_whitespace text)"
  shows "\<exists>groups. concat groups = split_whitespace text
      \<and> greedyGrouping maxWidth fnt scale letterSpacing groups
      \<and> layoutTextIntoLines text maxWidth fnt scale letterSpacing = map joinWords groups"
proof -
  obtain w ws where sp: "split_whitespace text = w # ws"
    using split_whitespace_nonempty [of "text"] by (cases "split_whitespace text") simp_all
  have w: "w \<noteq> []" and ws: "list_all (\<lambda>w. w \<noteq> []) ws"
    using assms by (simp_all add: sp)
  have first: "layoutStep maxWidth fnt scale letterSpacing ([], []) w
      = (map joinWords [], joinWords [w])"
    unfolding layoutStep_rule by simp
  have "greedyGrouping maxWidth fnt scale letterSpacing ([] @ [[w]])"
    by (simp add: greedyGrouping_def prefixesFit_single)
  from layoutWords_grouping [OF ws this] w obtain gs' grp' where g:
    "layoutWords maxWidth fnt scale letterSpacing ws (map joinWords [], joinWords [w])
      = (map joinWords gs', joinWords grp')"
    "grp' \<noteq> []" "list_all (\<lambda>w. w \<noteq> []) grp'"
    "concat gs' @ grp' = concat [] @ [w] @ ws"
    "greedyGrouping maxWidth fnt scale letterSpacing (gs' @ [grp'])"
    by auto
  have cur: "joinWords grp' \<noteq> []"
    using g(2,3) by (rule joinWords_nonempty)
  have "layoutTextIntoLines text maxWidth fnt scale letterSpacing = map joinWords (gs' @ [grp'])"
    unfolding layoutTextIntoLines_def sp Let_def layoutWords.simps first g(1)
    using cur by simp
  moreover have "concat (gs' @ [grp']) = split_whitespace text"
    using g(4) by (simp add: sp)
  ultimately show ?thesis using g(5) by blast
qed


lemma prefixesFit_no_break:
  assumes "grp \<noteq> []" and "extra \<noteq> []"
    and fit: "prefixesFit maxWidth fnt scale letterSpacing (grp @ extra)"
    and brk: "breakForced maxWidth fnt scale letterSpacing grp nxt" and "hd nxt = hd extra"
  shows False
proof -
  have lo: "2 \<le> Suc (length grp)"
    using assms(1) by (cases grp) simp_all
  have hi: "Suc (length grp) < Suc (length (grp @ extra))"
    using assms(2) by (cases extra) simp_all
  have k: "Suc (length grp) \<in> set [2..<Suc (length (grp @ extra))]"
    unfolding set_upt atLeastLessThan_iff using lo hi by (rule conjI)
  have "take (Suc (length grp)) (grp @ extra) = grp @ [hd extra]"
    using assms(2) by (cases extra) simp_all
  then have "measureLineWidth (joinWords (grp @ [hd extra])) fnt scale letterSpacing \<le> maxWidth"
    using fit k unfolding prefixesFit_def list_all_iff by metis
  then show False
    using brk assms(1,5) by (simp add: breakForced_def joinWords_snoc)
qed

lemma greedyGrouping_first:
  assumes "greedyGrouping maxWidth fnt scale letterSpacing (grp # gs)"
    and "greedyGrouping maxWidth fnt scale letterSpacing ((grp @ extra) # hs)"
    and "concat gs = extra @ concat hs"
  shows "extra = []"
proof (rule ccontr)
  assume extra: "extra \<noteq> []"
  have grp: "grp \<noteq> []" and gs_ok: "list_all (\<lambda>g. g \<noteq> []) gs"
    using assms(1) by (simp_all add: greedyGrouping_def list_all_iff)
  from extra assms(3) have "gs \<noteq> []" by auto
  then obtain nxt rest where gs: "gs = nxt # rest" by (cases gs) auto
  have nxt: "nxt \<noteq> []" using gs_ok gs by simp
  have "hd (concat gs) = hd extra" using assms(3) extra by simp
  then have hd: "hd nxt = hd extra" using nxt gs by simp
  have brk: "breakForced maxWidth fnt scale letterSpacing grp nxt"
    using assms(1) by (simp add: greedyGrouping_def gs)
  have fit: "prefixesFit maxWidth fnt scale letterSpacing (grp @ extra)"
    using assms(2) by (simp add: greedyGrouping_def)
  show False
    using prefixesFit_no_break [OF grp extra fit brk hd] .
qed

lemma greedyGrouping_tail:
  "greedyGrouping maxWidth fnt scale letterSpacing (grp # gs)
   \<Longrightarrow> greedyGrouping maxWidth fnt scale letterSpacing gs"
  by (auto simp: greedyGrouping_def successively_Cons)

lemma greedyGrouping_unique:
  assumes "greedyGrouping maxWidth fnt scale letterSpacing gs"
    and "greedyGrouping maxWidth fnt scale letterSpacing hs"
    and "concat gs = concat hs"
  shows "gs = hs"
  using assms
proof (induction gs arbitrary: hs)
  case Nil
  then have "list_all (\<lambda>g. g \<noteq> []) hs" "concat hs = []"
    by (simp_all add: greedyGrouping_def list_all_iff)
  then show ?case by (cases hs) simp_all
next
  case (Cons g gs)
  have g: "g \<noteq> []" using Cons.prems(1) by (simp add: greedyGrouping_def)
  with Cons.prems(3) have "hs \<noteq> []" by auto
  then obtain h hs' where hs: "hs = h # hs'" by (cases hs) auto
  have eq: "g @ concat gs = h @ concat hs'"
    using Cons.prems(3) by (simp add: hs)
  then consider extra where "h = g @ extra" "concat gs = extra @ concat hs'"
    | extra where "g = h @ extra" "concat hs' = extra @ concat gs"
    by (auto simp: append_eq_append_conv2)
  then have "g = h"
  proof cases
    case 1
    then have "extra = []"
      using greedyGrouping_first [of maxWidth fnt scale letterSpacing g gs extra hs']
        Cons.prems(1,2) by (simp add: hs)
    with 1 show ?thesis by simp
  next
    case 2
    then have "extra = []"
      using greedyGrouping_first [of maxWidth fnt scale letterSpacing h hs' extra gs]
        Cons.prems(1,2) by (simp add: hs)
    with 2 show ?thesis by simp
  qed
  moreover from this eq have "concat gs = concat hs'" by simp
  then have "gs = hs'"
    using Cons.prems(1,2) by (intro Cons.IH) (auto simp: hs dest: greedyGrouping_tail)
  ultimately show ?case by (simp add: hs)
qed


lemma layoutWords_foldl:
  "layoutWords maxWidth fnt scale letterSpacing ws st
     = foldl (layoutStep maxWidth fnt scale letterSpacing) st ws"
  by (induction ws arbitrary: st) simp_all

lemma layout_wide_word_line:
  assumes nonneg: "\<forall>ch. 0 \<le> advanceWidth (charToGlyph fnt ch) * scale + letterSpacing"
    and split: "split_whitespace inp = pre @ w # post" and w: "w \<noteq> []"
    and wide: "maxWidth < measureLineWidth w fnt scale letterSpacing"
  shows "w \<in> set (layoutTextIntoLines inp maxWidth fnt scale letterSpacing)"
proof -
  obtain L c where pre: "layoutWords maxWidth fnt scale letterSpacing pre ([], []) = (L, c)"
    by (cases "layoutWords maxWidth fnt scale letterSpacing pre ([], [])")
  have before: "maxWidth < measureLineWidth (c @ '' '' @ w) fnt scale letterSpacing"
    using wide measureLineWidth_nonneg [OF nonneg, of "c @ '' ''"]
    by (simp add: measureLineWidth_append [of "c @ '' ''" w, simplified])
  define L' where "L' = (if c \<noteq> [] then L @ [c] else L)"
  have at_w: "layoutStep maxWidth fnt scale letterSpacing (L, c) w = (L', w)"
    unfolding layoutStep_rule L'_def using before by simp
  have run: "layoutWords maxWidth fnt scale letterSpacing (pre @ w # post) ([], [])
      = layoutWords maxWidth fnt scale letterSpacing post (L', w)"
    by (simp add: layoutWords_append pre at_w)
  have result: "layoutTextIntoLines inp maxWidth fnt scale letterSpacing
      = (if snd (layoutWords maxWidth fnt scale letterSpacing post (L', w)) \<noteq> []
         then fst (layoutWords maxWidth fnt scale letterSpacing post (L', w))
              @ [snd (layoutWords maxWidth fnt scale letterSpacing post (L', w))]
         else fst (layoutWords maxWidth fnt scale letterSpacing post (L', w)))"
    unfolding layoutTextIntoLines_def split run Let_def by (simp add: split_beta)
  have "w \<in> set (if snd (layoutWords maxWidth fnt scale letterSpacing post (L', w)) \<noteq> []
         then fst (layoutWords maxWidth fnt scale letterSpacing post (L', w))
              @ [snd (layoutWords maxWidth fnt scale letterSpacing post (L', w))]
         else fst (layoutWords maxWidth fnt scale letterSpacing post (L', w)))"
  proof (cases post)
    case Nil
    then show ?thesis using w by simp
  next
    case (Cons v rest)
    have after: "maxWidth < measureLineWidth (w @ '' '' @ v) fnt scale letterSpacing"
      using wide measureLineWidth_nonneg [OF nonneg, of "'' '' @ v"]
      by (simp add: measureLineWidth_append [of w "'' '' @ v", simplified])
    have at_v: "layoutStep maxWidth fnt scale letterSpacing (L', w) v = (L' @ [w], v)"
      unfolding layoutStep_rule using after w by simp
    obtain extra where
      "fst (layoutWords maxWidth fnt scale letterSpacing rest (L' @ [w], v)) = (L' @ [w]) @ extra"
      using layoutWords_keeps_lines [of maxWidth fnt scale letterSpacing rest "L' @ [w]" v]
      by blast
    then have "w \<in> set (fst (layoutWords maxWidth fnt scale letterSpacing post (L', w)))"
      by (simp add: Cons at_v)
    then show ?thesis by simp
  qed
  then show ?thesis
    unfolding result .
qed

text \<open>
  Claim C2, as amended. For every state of the loop and every word, the current line is
  committed and a new one opened with the word exactly when the current line is not empty
  and the width of \<open>currentLine + " " + word\<close> is strictly greater than \<open>maxWidth\<close>;
  otherwise the word joins the current line. \<open>layoutTextIntoLines\<close> runs this rule over the
  words of the text in order, so for every text without an empty word its lines are the
  greedy grouping of its words, which is the only one. Two words whose joint width is at
  most \<open>maxWidth\<close> (equal to it, in particular) stay on one line; when the joint width is
  over \<open>maxWidth\<close> (by one unit, in particular) the result is the two words, each on its
  line, in their order. A text that is a single word is one line, however wide the word is;
  and inside a longer text a word wider than \<open>maxWidth\<close> is a line of its own provided that
  no character has a negative measured width.
\<close>

theorem layoutTextIntoLines_greedy_wrap:
  "layoutStep maxWidth fnt scale letterSpacing (lines, currentLine) word =
     (if currentLine \<noteq> []
          \<and> maxWidth < measureLineWidth (currentLine @ '' '' @ word) fnt scale letterSpacing
      then (lines @ [currentLine], word)
      else (lines, if currentLine = [] then word else currentLine @ '' '' @ word))
   \<and> layoutTextIntoLines inp maxWidth fnt scale letterSpacing =
       (case foldl (layoutStep maxWidth fnt scale letterSpacing) ([], []) (split_whitespace inp)
        of (ls, cur) \<Rightarrow> if cur \<noteq> [] then ls @ [cur] else ls)
   \<and> (list_all (\<lambda>w. w \<noteq> []) (split_whitespace inp) \<longrightarrow>
        (\<exists>groups. concat groups = split_whitespace inp
           \<and> greedyGrouping maxWidth fnt scale letterSpacing groups
           \<and> layoutTextIntoLines inp maxWidth fnt scale letterSpacing = map joinWords groups)
      \<and> (\<forall>groups. concat groups = split_whitespace inp
             \<and> greedyGrouping maxWidth fnt scale letterSpacing groups
           \<longrightarrow> layoutTextIntoLines inp maxWidth fnt scale letterSpacing
                 = map joinWords groups))
   \<and> (isWord w1 \<and> isWord w2
        \<and> measureLineWidth (w1 @ '' '' @ w2) fnt scale letterSpacing \<le> maxWidth
      \<longrightarrow> layoutTextIntoLines (w1 @ '' '' @ w2) maxWidth fnt scale letterSpacing
            = [w1 @ '' '' @ w2])
   \<and> (isWord w1 \<and> isWord w2
        \<and> maxWidth < measureLineWidth (w1 @ '' '' @ w2) fnt scale letterSpacing
      \<longrightarrow> layoutTextIntoLines (w1 @ '' '' @ w2) maxWidth fnt scale letterSpacing = [w1, w2])
   \<and> (isWord w1 \<longrightarrow> layoutTextIntoLines w1 maxWidth fnt scale letterSpacing = [w1])
   \<and> ((\<forall>ch. 0 \<le> advanceWidth (charToGlyph fnt ch) * scale + letterSpacing)
        \<and> split_whitespace inp = pre @ w # post \<and> w \<noteq> []
        \<and> maxWidth < measureLineWidth w fnt scale letterSpacing
      \<longrightarrow> w \<in> set (layoutTextIntoLines inp maxWidth fnt scale letterSpacing))"
proof (intro conjI impI allI)
  show "layoutStep maxWidth fnt scale letterSpacing (lines, currentLine) word =
     (if currentLine \<noteq> []
          \<and> maxWidth < measureLineWidth (currentLine @ '' '' @ word) fnt scale letterSpacing
      then (lines @ [currentLine], word)
      else (lines, if currentLine = [] then word else currentLine @ '' '' @ word))"
    by (rule layoutStep_rule)
  show "layoutTextIntoLines inp maxWidth fnt scale letterSpacing =
       (case foldl (layoutStep maxWidth fnt scale letterSpacing) ([], []) (split_whitespace inp)
        of (ls, cur) \<Rightarrow> if cur \<noteq> [] then ls @ [cur] else ls)"
    by (simp add: layoutTextIntoLines_def layoutWords_foldl)
next
  assume ne: "list_all (\<lambda>w. w \<noteq> []) (split_whitespace inp)"
  then obtain gs where gs: "concat gs = split_whitespace inp"
    "greedyGrouping maxWidth fnt scale letterSpacing gs"
    "layoutTextIntoLines inp maxWidth fnt scale letterSpacing = map joinWords gs"
    using layout_greedy [of inp maxWidth fnt scale letterSpacing] by blast
  then show "\<exists>groups. concat groups = split_whitespace inp
           \<and> greedyGrouping maxWidth fnt scale letterSpacing groups
           \<and> layoutTextIntoLines inp maxWidth fnt scale letterSpacing = map joinWords groups"
    by blast
  fix groups
  assume "concat groups = split_whitespace inp
             \<and> greedyGrouping maxWidth fnt scale letterSpacing groups"
  then have "groups = gs"
    using gs(1,2) by (intro greedyGrouping_unique [of maxWidth fnt scale letterSpacing]) simp_all
  then show "layoutTextIntoLines inp maxWidth fnt scale letterSpacing = map joinWords groups"
    using gs(3) by simp
next
  assume "isWord w1 \<and> isWord w2
        \<and> measureLineWidth (w1 @ '' '' @ w2) fnt scale letterSpacing \<le> maxWidth"
  then show "layoutTextIntoLines (w1 @ '' '' @ w2) maxWidth fnt scale letterSpacing
            = [w1 @ '' '' @ w2]"
    by (simp add: layout_two_words del: append.simps append_assoc)
next
  assume "isWord w1 \<and> isWord w2
        \<and> maxWidth < measureLineWidth (w1 @ '' '' @ w2) fnt scale letterSpacing"
  then show "layoutTextIntoLines (w1 @ '' '' @ w2) maxWidth fnt scale letterSpacing = [w1, w2]"
    by (simp add: layout_two_words del: append.simps append_assoc)
next
  assume "isWord w1"
  then show "layoutTextIntoLines w1 maxWidth fnt scale letterSpacing = [w1]"
    by (rule layout_one_word)
next
  assume "(\<forall>ch. 0 \<le> advanceWidth (charToGlyph fnt ch) * scale + letterSpacing)
        \<and> split_whitespace inp = pre @ w # post \<and> w \<noteq> []
        \<and> maxWidth < measureLineWidth w fnt scale letterSpacing"
  then show "w \<in> set (layoutTextIntoLines inp maxWidth fnt scale letterSpacing)"
    by (intro layout_wide_word_line [of fnt scale letterSpacing inp pre w post]) simp_all
qed


theorem layoutTextIntoLines_greedy_wrap_witness:
  "split_whitespace ''aa bb cc'' = [''aa'', ''bb'', ''cc'']
   \<and> greedyGrouping 250 (fixedWidthFont 500) (1 / 10) 0 [[''aa'', ''bb''], [''cc'']]
   \<and> layoutTextIntoLines ''aa bb cc'' 250 (fixedWidthFont 500) (1 / 10) 0 = [''aa bb'', ''cc'']
   \<and> isWord ''ab'' \<and> isWord ''cd''
   \<and> measureLineWidth ''ab cd'' (fixedWidthFont 500) (1 / 10) 0 = 250
   \<and> layoutTextIntoLines ''ab cd'' 250 (fixedWidthFont 500) (1 / 10) 0 = [''ab cd'']
   \<and> layoutTextIntoLines ''ab cd'' 249 (fixedWidthFont 500) (1 / 10) 0 = [''ab'', ''cd'']
   \<and> isWord ''abcdef''
   \<and> measureLineWidth ''abcdef'' (fixedWidthFont 500) (1 / 10) 0 = 300
   \<and> layoutTextIntoLines ''abcdef'' 250 (fixedWidthFont 500) (1 / 10) 0 = [''abcdef'']
   \<and> split_whitespace ''a abcdef b'' = [''a''] @ ''abcdef'' # [''b'']
   \<and> ''abcdef'' \<in> set (layoutTextIntoLines ''a abcdef b'' 250 (fixedWidthFont 500) (1 / 10) 0)"
proof -
  have w: "isWord ''ab''" "isWord ''cd''" "isWord ''abcdef''"
    by (simp_all add: isWord_def isWhiteSpace_def)
  have m: "measureLineWidth ''ab cd'' (fixedWidthFont 500) (1 / 10) 0 = 250"
    "measureLineWidth ''abcdef'' (fixedWidthFont 500) (1 / 10) 0 = 300"
    by (simp_all add: measureLineWidth_def fixedWidthFont_def)
  have sp3: "split_whitespace ''aa bb cc'' = [''aa'', ''bb'', ''cc'']"
    by (simp add: split_whitespace.simps isWhiteSpace_def)
  have ne3: "list_all (\<lambda>w. w \<noteq> []) (split_whitespace ''aa bb cc'')"
    by (simp add: sp3)
  have gr: "greedyGrouping 250 (fixedWidthFont 500) (1 / 10) 0 [[''aa'', ''bb''], [''cc'']]"
    by (simp add: greedyGrouping_def prefixesFit_def breakForced_def measureLineWidth_def
          fixedWidthFont_def upt_rec)
  have sp: "split_whitespace ''a abcdef b'' = [''a''] @ ''abcdef'' # [''b'']"
    by (simp add: split_whitespace.simps isWhiteSpace_def)
  have nonneg: "\<forall>ch. 0 \<le> advanceWidth (charToGlyph (fixedWidthFont 500) ch) * (1 / 10) + 0"
    by (simp add: fixedWidthFont_def)
  have "\<forall>groups. concat groups = split_whitespace ''aa bb cc''
             \<and> greedyGrouping 250 (fixedWidthFont 500) (1 / 10) 0 groups
           \<longrightarrow> layoutTextIntoLines ''aa bb cc'' 250 (fixedWidthFont 500) (1 / 10) 0
                 = map joinWords groups"
    using layoutTextIntoLines_greedy_wrap
      [where maxWidth = 250 and fnt = "fixedWidthFont 500" and scale = "1 / 10"
         and letterSpacing = 0 and inp = "''aa bb cc''" and lines = "[]"
         and currentLine = "[]" and word = "[]" and ?w1.0 = "[]" and ?w2.0 = "[]"
         and pre = "[]" and w = "[]" and post = "[]"] ne3
    by blast
  from this [rule_format, of "[[''aa'', ''bb''], [''cc'']]"] gr
  have three: "layoutTextIntoLines ''aa bb cc'' 250 (fixedWidthFont 500) (1 / 10) 0
      = [''aa bb'', ''cc'']"
    by (simp add: sp3)
  note two = layoutTextIntoLines_greedy_wrap
      [where fnt = "fixedWidthFont 500" and scale = "1 / 10"
         and letterSpacing = 0 and inp = "''ab cd''" and lines = "[]"
         and currentLine = "[]" and word = "[]" and ?w1.0 = "''ab''" and ?w2.0 = "''cd''"
         and pre = "[]" and w = "[]" and post = "[]"]
  have "isWord ''ab'' \<and> isWord ''cd''
        \<and> measureLineWidth (''ab'' @ '' '' @ ''cd'') (fixedWidthFont 500) (1 / 10) 0 \<le> 250
      \<longrightarrow> layoutTextIntoLines (''ab'' @ '' '' @ ''cd'') 250 (fixedWidthFont 500) (1 / 10) 0
            = [''ab'' @ '' '' @ ''cd'']"
    using two [where maxWidth = 250] by blast
  then have fits: "layoutTextIntoLines ''ab cd'' 250 (fixedWidthFont 500) (1 / 10) 0
      = [''ab cd'']"
    using w m(1) by simp
  have "isWord ''ab'' \<and> isWord ''cd''
        \<and> 249 < measureLineWidth (''ab'' @ '' '' @ ''cd'') (fixedWidthFont 500) (1 / 10) 0
      \<longrightarrow> layoutTextIntoLines (''ab'' @ '' '' @ ''cd'') 249 (fixedWidthFont 500) (1 / 10) 0
            = [''ab'', ''cd'']"
    using two [where maxWidth = 249] by blast
  then have over: "layoutTextIntoLines ''ab cd'' 249 (fixedWidthFont 500) (1 / 10) 0
      = [''ab'', ''cd'']"
    using w m(1) by simp
  note one = layoutTextIntoLines_greedy_wrap
      [where maxWidth = 250 and fnt = "fixedWidthFont 500" and scale = "1 / 10"
         and letterSpacing = 0 and inp = "''a abcdef b''" and lines = "[]"
         and currentLine = "[]" and word = "[]" and ?w1.0 = "''abcdef''" and ?w2.0 = "[]"
         and pre = "[''a'']" and w = "''abcdef''" and post = "[''b'']"]
  have alone: "layoutTextIntoLines ''abcdef'' 250 (fixedWidthFont 500) (1 / 10) 0 = [''abcdef'']"
    using one w(3) by blast
  have "(\<forall>ch. 0 \<le> advanceWidth (charToGlyph (fixedWidthFont 500) ch) * (1 / 10) + 0)
        \<and> split_whitespace ''a abcdef b'' = [''a''] @ ''abcdef'' # [''b''] \<and> ''abcdef'' \<noteq> []
        \<and> 250 < measureLineWidth ''abcdef'' (fixedWidthFont 500) (1 / 10) 0
      \<longrightarrow> ''abcdef'' \<in> set (layoutTextIntoLines ''a abcdef b'' 250 (fixedWidthFont 500)
            (1 / 10) 0)"
    using one by blast
  then have inside: "''abcdef'' \<in> set (layoutTextIntoLines ''a abcdef b'' 250
      (fixedWidthFont 500) (1 / 10) 0)"
    using sp nonneg m(2) by simp
  from sp3 gr three w m fits over alone sp inside show ?thesis by simp
qed

text \<open>
  Claim C2 as stated has every word wider than \<open>maxWidth\<close> alone on its line. With a
  negative letter spacing the characters of a narrow word and the space can have negative
  widths: at scale \<open>0.1\<close> and letter spacing \<open>-40\<close>, the word of eight \<open>W\<close> is \<open>400\<close>
  wide, over the \<open>maxWidth\<close> of \<open>380\<close>, and yet it stays on the line of the word before it,
  the whole line being \<open>370\<close> wide.
\<close>

theorem layout_wide_word_counterexample:
  "isWord ''i'' \<and> isWord ''WWWWWWWW''
   \<and> measureLineWidth ''WWWWWWWW''
        \<lparr> charToGlyph = (\<lambda>ch. \<lparr> advanceWidth = (if ch = CHR ''W'' then 900 else 250),
                                 getPath = (\<lambda>x y fontSize. []) \<rparr>),
          unitsPerEm = 1000 \<rparr> (1 / 10) (- 40) = 400
   \<and> layoutTextIntoLines ''i WWWWWWWW'' 380
        \<lparr> charToGlyph = (\<lambda>ch. \<lparr> advanceWidth = (if ch = CHR ''W'' then 900 else 250),
                                 getPath = (\<lambda>x y fontSize. []) \<rparr>),
          unitsPerEm = 1000 \<rparr> (1 / 10) (- 40) = [''i WWWWWWWW'']
   \<and> ''WWWWWWWW'' \<notin> set (layoutTextIntoLines ''i WWWWWWWW'' 380
        \<lparr> charToGlyph = (\<lambda>ch. \<lparr> advanceWidth = (if ch = CHR ''W'' then 900 else 250),
                                 getPath = (\<lambda>x y fontSize. []) \<rparr>),
          unitsPerEm = 1000 \<rparr> (1 / 10) (- 40))"
  by (simp add: measureLineWidth_def layoutTextIntoLines_def isWord_def
        split_whitespace.simps isWhiteSpace_def layoutStep_def)

section \<open>Properties of the score lookup and of the rendering\<close>

lemma bestEntry_NaN: "bestEntry None best ds = best"
  by (induction ds arbitrary: best) simp_all

lemma bestEntry_all_later:
  "list_all (\<lambda>d. v < year d) ds \<Longrightarrow> bestEntry (Some v) best ds = best"
  by (induction ds arbitrary: best) simp_all

lemma bestEntry_sorted:
  assumes "sorted (map year ds)" and "year best \<le> v" and "\<forall>d \<in> set ds. year best \<le> year d"
  shows "(bestEntry (Some v) best ds = best \<or> bestEntry (Some v) best ds \<in> set ds)
       \<and> year (bestEntry (Some v) best ds) \<le> v
       \<and> (\<forall>d \<in> set ds. year d \<le> v \<longrightarrow> year d \<le> year (bestEntry (Some v) best ds))"
  using assms
proof (induction ds arbitrary: best)
  case Nil
  then show ?case by simp
next
  case (Cons d ds)
  have sorted: "sorted (map year ds)" and later: "\<forall>e \<in> set ds. year d \<le> year e"
    using Cons.prems(1) by simp_all
  show ?case
  proof (cases "year d \<le> v")
    case True
    then have run: "bestEntry (Some v) best (d # ds) = bestEntry (Some v) d ds"
      using Cons.prems(3) by simp
    from Cons.IH [OF sorted True later] later show ?thesis
      unfolding run by auto
  next
    case False
    then have "list_all (\<lambda>e. v < year e) (d # ds)"
      using later by (auto simp: list_all_iff)
    then have "bestEntry (Some v) best (d # ds) = best"
      by (rule bestEntry_all_later)
    then show ?thesis using Cons.prems(2) False later by auto
  qed
qed

lemma find_year:
  "find (\<lambda>d. Some (year d) = Some v) arr = None \<longleftrightarrow> v \<notin> year ` set arr"
  by (auto simp: find_None_iff)

lemma sort_key_year_sorted: "sorted (map year (sort_key year arr))"
  by (rule sorted_sort_key)

lemma parseRows_sorted: "parseRows rows country = Some arr \<Longrightarrow> sorted (map year arr)"
  by (auto simp: parseRows_def sorted_sort_key)


lemma drawOutput_no_country:
  "selectedCountry st = [] \<Longrightarrow> drawOutput st gen = ([], st, gen)"
  by (simp add: drawOutput_def)

lemma drawOutput_no_font:
  assumes "selectedCountry st \<noteq> []" and "font st = None"
  shows "drawOutput st gen =
     ([SetPanelCountry (selectedCountry st), SetPanelYear (selectedYear st),
       SetPanelScore (clampedScoreOf st),
       SetBackground (scoreToColor (clampedScoreOf st)),
       SetBlur (scoreToDistortion (clampedScoreOf st) * MAX_BLUR_PX)],
      st\<lparr> currentScore := Some (clampedScoreOf st) \<rparr>, gen)"
  using assms by (simp add: drawOutput_def clampedScoreOf_def Let_def)

lemma drawOutput_currentScore:
  assumes "selectedCountry st \<noteq> []"
  shows "currentScore (fst (snd (drawOutput st gen))) = Some (clampedScoreOf st)"
  using assms
  by (cases "font st") (simp_all add: drawOutput_def clampedScoreOf_def Let_def split_beta)

text \<open>
  Claim C10. \<open>getCurrentScore\<close> returns \<^verbatim>\<open>null\<close> exactly when the country is not in the data
  or has no entries; the score of \<open>drawOutput\<close> is then the neutral \<open>0.5\<close>. For a country
  with at least one entry, its array sorted by year as \<^verbatim>\<open>parseCSV\<close> leaves it: when the
  requested year is recorded, the result is the score of an entry of that year; when it is
  not, and some recorded year is at most the requested one, the result is the score of an
  entry of the greatest such year; and when every recorded year is later than the requested
  one, the result is the score of the first, earliest entry.
\<close>

theorem getCurrentScore_fallback:
  "(getCurrentScore m country yr = None \<longleftrightarrow> m country = None \<or> m country = Some [])
   \<and> (m country = Some arr \<and> arr \<noteq> [] \<and> sorted (map year arr) \<longrightarrow>
        (v \<in> year ` set arr \<longrightarrow>
           (\<exists>d \<in> set arr. year d = v \<and> getCurrentScore m country (Some v) = Some (score d)))
      \<and> (v \<notin> year ` set arr \<and> (\<exists>e \<in> set arr. year e \<le> v) \<longrightarrow>
           (\<exists>d \<in> set arr. year d \<le> v \<and> (\<forall>e \<in> set arr. year e \<le> v \<longrightarrow> year e \<le> year d)
              \<and> getCurrentScore m country (Some v) = Some (score d)))
      \<and> ((\<forall>e \<in> set arr. v < year e) \<longrightarrow>
           getCurrentScore m country (Some v) = Some (score (hd arr))
           \<and> (\<forall>e \<in> set arr. year (hd arr) \<le> year e)))
   \<and> (selectedCountry st \<noteq> []
        \<and> getCurrentScore (dataByCountry st) (selectedCountry st) (selectedYear st) = None
      \<longrightarrow> currentScore (fst (snd (drawOutput st gen))) = Some (1 / 2))"
proof (intro conjI impI)
  show "getCurrentScore m country yr = None \<longleftrightarrow> m country = None \<or> m country = Some []"
    by (simp add: getCurrentScore_def split: option.splits list.splits)
next
  assume a: "m country = Some arr \<and> arr \<noteq> [] \<and> sorted (map year arr)" and "v \<in> year ` set arr"
  then obtain d where d: "find (\<lambda>d. Some (year d) = Some v) arr = Some d"
    using find_year [of v arr] by (cases "find (\<lambda>d. Some (year d) = Some v) arr") auto
  then have "d \<in> set arr" "year d = v"
    by (auto simp: find_Some_iff)
  moreover from a obtain first rest where arr: "arr = first # rest"
    by (cases arr) auto
  moreover have "getCurrentScore m country (Some v) = Some (score d)"
    using a d by (simp add: getCurrentScore_def arr del: find.simps)
  ultimately show "\<exists>d \<in> set arr. year d = v
      \<and> getCurrentScore m country (Some v) = Some (score d)"
    by blast
next
  assume a: "m country = Some arr \<and> arr \<noteq> [] \<and> sorted (map year arr)"
    and b: "v \<notin> year ` set arr \<and> (\<exists>e \<in> set arr. year e \<le> v)"
  from a obtain first rest where arr: "arr = first # rest"
    by (cases arr) auto
  have least: "\<forall>d \<in> set arr. year first \<le> year d"
    using a by (auto simp: arr)
  with b have first: "year first \<le> v" by fastforce
  have none: "find (\<lambda>d. Some (year d) = Some v) arr = None"
    using b find_year [of v arr] by simp
  have res: "getCurrentScore m country (Some v) = Some (score (bestEntry (Some v) first arr))"
    using a none by (simp add: getCurrentScore_def arr)
  from bestEntry_sorted [of arr first v] a first least
  have "bestEntry (Some v) first arr \<in> set arr
      \<and> year (bestEntry (Some v) first arr) \<le> v
      \<and> (\<forall>d \<in> set arr. year d \<le> v \<longrightarrow> year d \<le> year (bestEntry (Some v) first arr))"
    by (auto simp: arr)
  with res show "\<exists>d \<in> set arr. year d \<le> v \<and> (\<forall>e \<in> set arr. year e \<le> v \<longrightarrow> year e \<le> year d)
      \<and> getCurrentScore m country (Some v) = Some (score d)"
    by blast
next
  assume a: "m country = Some arr \<and> arr \<noteq> [] \<and> sorted (map year arr)"
    and b: "\<forall>e \<in> set arr. v < year e"
  from a obtain first rest where arr: "arr = first # rest"
    by (cases arr) auto
  have none: "find (\<lambda>d. Some (year d) = Some v) arr = None"
    using b find_year [of v arr] by auto
  have "bestEntry (Some v) first arr = first"
    using b by (intro bestEntry_all_later) (simp add: list_all_iff)
  then show "getCurrentScore m country (Some v) = Some (score (hd arr))"
    using a none by (simp add: getCurrentScore_def arr)
  show "\<forall>e \<in> set arr. year (hd arr) \<le> year e"
    using a by (auto simp: arr)
next
  assume "selectedCountry st \<noteq> []
      \<and> getCurrentScore (dataByCountry st) (selectedCountry st) (selectedYear st) = None"
  then show "currentScore (fst (snd (drawOutput st gen))) = Some (1 / 2)"
    by (simp add: drawOutput_currentScore clampedScoreOf_def)
qed

theorem getCurrentScore_fallback_witness:
  "[''Norway'' \<mapsto> [\<lparr> year = 2000, score = 2 / 10 \<rparr>, \<lparr> year = 2005, score = 5 / 10 \<rparr>,
                     \<lparr> year = 2010, score = 8 / 10 \<rparr>]] ''Norway''
     = Some [\<lparr> year = 2000, score = 2 / 10 \<rparr>, \<lparr> year = 2005, score = 5 / 10 \<rparr>,
             \<lparr> year = 2010, score = 8 / 10 \<rparr>]
   \<and> sorted (map year [\<lparr> year = 2000, score = 2 / 10 \<rparr>, \<lparr> year = 2005, score = 5 / 10 \<rparr>,
                        \<lparr> year = 2010, score = 8 / 10 \<rparr>])
   \<and> getCurrentScore
        [''Norway'' \<mapsto> [\<lparr> year = 2000, score = 2 / 10 \<rparr>, \<lparr> year = 2005, score = 5 / 10 \<rparr>,
                          \<lparr> year = 2010, score = 8 / 10 \<rparr>]] ''Norway'' (Some 2005)
       = Some (5 / 10)
   \<and> getCurrentScore
        [''Norway'' \<mapsto> [\<lparr> year = 2000, score = 2 / 10 \<rparr>, \<lparr> year = 2005, score = 5 / 10 \<rparr>,
                          \<lparr> year = 2010, score = 8 / 10 \<rparr>]] ''Norway'' (Some 2007)
       = Some (5 / 10)
   \<and> getCurrentScore
        [''Norway'' \<mapsto> [\<lparr> year = 2000, score = 2 / 10 \<rparr>, \<lparr> year = 2005, score = 5 / 10 \<rparr>,
                          \<lparr> year = 2010, score = 8 / 10 \<rparr>]] ''Norway'' (Some 1990)
       = Some (2 / 10)
   \<and> getCurrentScore
        [''Norway'' \<mapsto> [\<lparr> year = 2000, score = 2 / 10 \<rparr>, \<lparr> year = 2005, score = 5 / 10 \<rparr>,
                          \<lparr> year = 2010, score = 8 / 10 \<rparr>]] ''Sweden'' (Some 2005)
       = None
   \<and> currentScore
        (fst (snd (drawOutput (initialState\<lparr> countrySelect_value := ''Sweden'' \<rparr>) (\<lambda>n. 0, 0))))
       = Some (1 / 2)"
proof -
  let ?arr = "[\<lparr> year = 2000, score = 2 / 10 \<rparr>, \<lparr> year = 2005, score = 5 / 10 \<rparr>,
               \<lparr> year = 2010, score = 8 / 10 \<rparr>]"
  let ?m = "[''Norway'' \<mapsto> ?arr]"
  have pre: "?m ''Norway'' = Some ?arr \<and> ?arr \<noteq> [] \<and> sorted (map year ?arr)"
    by simp
  have early: "\<forall>e \<in> set ?arr. 1990 < year e"
    by simp
  have "getCurrentScore ?m ''Norway'' (Some 1990) = Some (score (hd ?arr))"
    using getCurrentScore_fallback [of ?m "''Norway''" None ?arr 1990 initialState "(\<lambda>n. 0, 0)"] pre early by blast
  then have a: "getCurrentScore ?m ''Norway'' (Some 1990) = Some (2 / 10)"
    by simp
  have "getCurrentScore ?m ''Sweden'' (Some 2005) = None
      \<longleftrightarrow> ?m ''Sweden'' = None \<or> ?m ''Sweden'' = Some []"
    using getCurrentScore_fallback [of ?m "''Sweden''" "Some 2005" ?arr 0 initialState "(\<lambda>n. 0, 0)"] by blast
  then have b: "getCurrentScore ?m ''Sweden'' (Some 2005) = None"
    by simp
  have c: "getCurrentScore ?m ''Norway'' (Some 2005) = Some (5 / 10)"
    "getCurrentScore ?m ''Norway'' (Some 2007) = Some (5 / 10)"
    by (simp_all add: getCurrentScore_def)
  let ?st = "initialState\<lparr> countrySelect_value := ''Sweden'' \<rparr>"
  have "selectedCountry ?st \<noteq> []
      \<and> getCurrentScore (dataByCountry ?st) (selectedCountry ?st) (selectedYear ?st) = None"
    by (simp add: initialState_def selectedCountry_def getCurrentScore_def)
  then have d: "currentScore (fst (snd (drawOutput ?st (\<lambda>n. 0, 0)))) = Some (1 / 2)"
    using getCurrentScore_fallback [of ?m "''Sweden''" None ?arr 0 ?st "(\<lambda>n. 0, 0)"] by blast
  from pre a b c d show ?thesis by simp
qed


text \<open>
  Claim C9, as amended. When the font is absent and a country is selected, \<open>drawOutput\<close>
  emits exactly one background instruction, with the colour of the clamped score, exactly
  one blur instruction, with the distortion level times \<^verbatim>\<open>MAX_BLUR_PX\<close>, and no outline to
  fill. When no country is selected it returns at once and emits nothing. (The model is a
  total function: no statement on this path throws.)
\<close>

theorem drawOutput_without_font:
  "(font st = None \<and> selectedCountry st \<noteq> [] \<longrightarrow>
      filter isSetBackground (fst (drawOutput st gen))
        = [SetBackground (scoreToColor (clampedScoreOf st))]
    \<and> filter isSetBlur (fst (drawOutput st gen))
        = [SetBlur (scoreToDistortion (clampedScoreOf st) * MAX_BLUR_PX)]
    \<and> filter isFillOutline (fst (drawOutput st gen)) = [])
   \<and> (selectedCountry st = [] \<longrightarrow> drawOutput st gen = ([], st, gen))"
  by (simp add: drawOutput_no_country drawOutput_no_font)

theorem drawOutput_without_font_witness:
  "font (initialState\<lparr> currentCountry := Some ''Norway'',
          dataByCountry := [''Norway'' \<mapsto> [\<lparr> year = 2000, score = 9 / 10 \<rparr>]] \<rparr>) = None
   \<and> selectedCountry (initialState\<lparr> currentCountry := Some ''Norway'',
          dataByCountry := [''Norway'' \<mapsto> [\<lparr> year = 2000, score = 9 / 10 \<rparr>]] \<rparr>) = ''Norway''
   \<and> filter isSetBackground
        (fst (drawOutput (initialState\<lparr> currentCountry := Some ''Norway'',
          dataByCountry := [''Norway'' \<mapsto> [\<lparr> year = 2000, score = 9 / 10 \<rparr>]] \<rparr>) (\<lambda>n. 0, 0)))
       = [SetBackground \<lparr> r = 40, g = 193, b = 112 \<rparr>]
   \<and> filter isSetBlur
        (fst (drawOutput (initialState\<lparr> currentCountry := Some ''Norway'',
          dataByCountry := [''Norway'' \<mapsto> [\<lparr> year = 2000, score = 9 / 10 \<rparr>]] \<rparr>) (\<lambda>n. 0, 0)))
       = [SetBlur (4 / 10)]
   \<and> filter isFillOutline
        (fst (drawOutput (initialState\<lparr> currentCountry := Some ''Norway'',
          dataByCountry := [''Norway'' \<mapsto> [\<lparr> year = 2000, score = 9 / 10 \<rparr>]] \<rparr>) (\<lambda>n. 0, 0)))
       = []"
proof -
  let ?st = "initialState\<lparr> currentCountry := Some ''Norway'',
          dataByCountry := [''Norway'' \<mapsto> [\<lparr> year = 2000, score = 9 / 10 \<rparr>]] \<rparr>"
  have f: "font ?st = None" and c: "selectedCountry ?st = ''Norway''"
    by (simp_all add: initialState_def selectedCountry_def)
  have s: "clampedScoreOf ?st = 9 / 10"
    by (simp add: clampedScoreOf_def c)
       (simp add: initialState_def selectedYear_def getCurrentScore_def)
  have col: "scoreToColor (9 / 10) = \<lparr> r = 40, g = 193, b = 112 \<rparr>"
    by (simp add: scoreToColor_def lerp_def Math_round_def)
  have blur: "scoreToDistortion (9 / 10) * MAX_BLUR_PX = 4 / 10"
    by (simp add: scoreToDistortion_def MAX_BLUR_PX_def)
  from f c have "font ?st = None \<and> selectedCountry ?st \<noteq> []"
    by simp
  with drawOutput_without_font [of ?st "(\<lambda>n. 0, 0)"]
  have "filter isSetBackground (fst (drawOutput ?st (\<lambda>n. 0, 0)))
        = [SetBackground (scoreToColor (clampedScoreOf ?st))]
    \<and> filter isSetBlur (fst (drawOutput ?st (\<lambda>n. 0, 0)))
        = [SetBlur (scoreToDistortion (clampedScoreOf ?st) * MAX_BLUR_PX)]
    \<and> filter isFillOutline (fst (drawOutput ?st (\<lambda>n. 0, 0))) = []"
    by blast
  then show ?thesis
    unfolding s col blur using f c by simp
qed

text \<open>
  Claim C9 as stated asks for one background and one blur instruction whenever the font is
  absent. In the starting state the font is absent and no country is selected:
  \<^verbatim>\<open>if (!country) return;\<close> comes first, and neither instruction is emitted.
\<close>

theorem drawOutput_no_country_counterexample:
  "font initialState = None
   \<and> fst (drawOutput initialState (\<lambda>n. 0, 0)) = []
   \<and> length (filter isSetBackground (fst (drawOutput initialState (\<lambda>n. 0, 0)))) = 0
   \<and> length (filter isSetBlur (fst (drawOutput initialState (\<lambda>n. 0, 0)))) = 0"
  by (simp add: drawOutput_def initialState_def selectedCountry_def)

end
